theory Spec2Isabelle
  imports Complex_Main
begin

section \<open>Numbers, errors and tensors\<close>

text \<open>
  The controller of \<^verbatim>\<open>vmas/simulator/velocity_controller.py\<close> computes with Python
  floats and torch tensors. Their entries are modelled as reals, so every equation below
  is one of exact arithmetic; rounding, overflow and the values inf and nan are not
  represented. Where Python raises, the model returns the error as a value.
\<close>

datatype error =
    PyException string
  | IndexError
  | ZeroDivisionError
  | AttributeError
  | ShapeError
  | NonFinite

text \<open>
  The constructor raises a plain \<^verbatim>\<open>Exception\<close> with a fixed message for an unknown
  PID form; the specification calls it InvalidConfiguration.
\<close>

definition InvalidConfiguration :: error where
  "InvalidConfiguration = PyException ''PID form is either standard or parallel.''"

definition bind :: "error + 'a \<Rightarrow> ('a \<Rightarrow> error + 'b) \<Rightarrow> error + 'b" where
  "bind m f = (case m of Inl e \<Rightarrow> Inl e | Inr x \<Rightarrow> f x)"

definition py_index :: "'a list \<Rightarrow> nat \<Rightarrow> error + 'a" where
  \<comment> \<open>\<^verbatim>\<open>xs[i]\<close> for a literal index \<open>i \<ge> 0\<close>\<close>
  "py_index xs i = (if i < length xs then Inr (xs ! i) else Inl IndexError)"

definition py_div :: "real \<Rightarrow> real \<Rightarrow> error + real" where
  \<comment> \<open>\<^verbatim>\<open>a / b\<close> on Python numbers\<close>
  "py_div a b = (if b = 0 then Inl ZeroDivisionError else Inr (a / b))"

text \<open>
  A tensor is the \<^verbatim>\<open>[batch, dim]\<close> array of the agent contract: one row per batch
  entry, one column per spatial dimension. The controller's two memories start as the
  Python float \<^verbatim>\<open>0.0\<close> and become tensors with the first tick, so a value of the state
  is either a scalar or a tensor.
\<close>

type_synonym tensor = "real list list"

datatype val = Scalar real | Tensor tensor

definition same_shape :: "tensor \<Rightarrow> tensor \<Rightarrow> bool" where
  "same_shape s t = (map length s = map length t)"

definition tmap :: "(real \<Rightarrow> real) \<Rightarrow> tensor \<Rightarrow> tensor" where
  "tmap f t = map (map f) t"

definition tzip :: "(real \<Rightarrow> real \<Rightarrow> real) \<Rightarrow> tensor \<Rightarrow> tensor \<Rightarrow> tensor" where
  "tzip f s t = map2 (map2 f) s t"

text \<open>
  An elementwise binary operation of a tensor with a scalar (broadcast to every entry) or
  with a tensor of the same shape. Operands of different shapes leave the agent contract:
  torch raises a RuntimeError there unless a dimension of size one can be broadcast; the
  model stops with \<open>ShapeError\<close> in both cases.
\<close>

fun bop :: "(real \<Rightarrow> real \<Rightarrow> real) \<Rightarrow> tensor \<Rightarrow> val \<Rightarrow> error + tensor" where
  "bop f t (Scalar s) = Inr (tmap (\<lambda>x. f x s) t)"
| "bop f t (Tensor r) = (if same_shape t r then Inr (tzip f t r) else Inl ShapeError)"

definition torch_clamp :: "real \<Rightarrow> real \<Rightarrow> real \<Rightarrow> real" where
  \<comment> \<open>\<^verbatim>\<open>torch.clamp(x, lo, hi)\<close> on one entry: \<open>min(max(x, lo), hi)\<close>\<close>
  "torch_clamp lo hi x = min (max x lo) hi"

text \<open>
  Modelled from the spec: \<^verbatim>\<open>vmas.simulator.utils.clamp_tensor\<close> is not among the sources.
  The specification has it clamp the accumulated error element-wise, by magnitude, to
  \<open>[-windup_limit, +windup_limit]\<close>.
\<close>

definition clamp_tensor :: "tensor \<Rightarrow> real \<Rightarrow> tensor" where
  "clamp_tensor t w = tmap (torch_clamp (- w) w) t"

definition vector_norm :: "real list \<Rightarrow> real" where
  "vector_norm row = sqrt (sum_list (map (\<lambda>x. x * x) row))"

text \<open>
  Modelled from the spec: \<^verbatim>\<open>vmas.simulator.utils.clamp_with_norm\<close> is not among the
  sources. The specification has it clamp the force by Euclidean norm: a row whose norm
  exceeds the bound is rescaled to that magnitude, direction preserved; other rows are
  returned as they are.
\<close>

definition clamp_with_norm :: "tensor \<Rightarrow> real \<Rightarrow> tensor" where
  "clamp_with_norm t max_norm =
     map (\<lambda>row. let n = vector_norm row
                in if n > max_norm then map (\<lambda>x. x / n * max_norm) row else row) t"

section \<open>The agent contract and the controller\<close>

text \<open>
  The fields of \<^verbatim>\<open>vmas.simulator.core.Agent\<close> the controller touches:
  \<^verbatim>\<open>agent.action.u\<close>, \<^verbatim>\<open>agent.state.vel\<close>, \<^verbatim>\<open>agent.mass\<close>, \<^verbatim>\<open>agent.max_f\<close> and
  \<^verbatim>\<open>agent.f_range\<close>. The controller keeps a reference to the agent, which the simulator
  mutates between ticks; the model passes the agent's current state to each operation and
  returns the updated one.
\<close>

record agent =
  action_u :: tensor
  state_vel :: tensor
  mass :: real
  max_f :: "real option"
  f_range :: "real option"

text \<open>
  \<open>integrator_windup_cutoff\<close> is an attribute the constructor sets only when the
  integrator is used: \<open>None\<close> is the unset attribute.
\<close>

record controller =
  dt :: real
  ctrl_gain :: real
  integralTs :: real
  derivativeTs :: real
  use_integrator :: bool
  integrator_windup_cutoff :: "real option"
  accum_errs :: val
  prev_err :: val

definition reset :: "controller \<Rightarrow> controller" where
  "reset c = c\<lparr>accum_errs := Scalar 0, prev_err := Scalar 0\<rparr>"

text \<open>The time constants of \<^verbatim>\<open>__init__\<close>, lines 28 to 38.\<close>

definition time_constants :: "real \<Rightarrow> real list \<Rightarrow> string \<Rightarrow> error + real \<times> real" where
  "time_constants kP ctrl_params pid_form =
     (if pid_form = ''standard'' then
        bind (py_index ctrl_params 1) (\<lambda>ti.
        bind (py_index ctrl_params 2) (\<lambda>td.
        Inr (ti, td)))
      else if pid_form = ''parallel'' then
        bind (py_index ctrl_params 1) (\<lambda>kI.
        bind (if kI = 0 then Inr 0 else py_div kP kI) (\<lambda>ti.
        bind (py_index ctrl_params 2) (\<lambda>kD.
        bind (py_div kD kP) (\<lambda>td.
        Inr (ti, td)))))
      else Inl (PyException ''PID form is either standard or parallel.''))"

text \<open>The integrator switch and its windup limit, lines 41 to 47.\<close>

definition windup :: "agent \<Rightarrow> real \<Rightarrow> real \<Rightarrow> real \<Rightarrow> error + bool \<times> real option" where
  "windup a tstep kP ti =
     (if ti = 0 then Inr (False, None)
      else
        let fmax = (case max_f a of Some m \<Rightarrow> m | None \<Rightarrow> 2.0)
        in bind (py_div (0.5 * fmax * ti) (tstep * kP)) (\<lambda>w. Inr (True, Some w)))"

text \<open>\<^verbatim>\<open>VelocityController.__init__(agent, dt, ctrl_params, pid_form)\<close>.\<close>

definition init :: "agent \<Rightarrow> real \<Rightarrow> real list \<Rightarrow> string \<Rightarrow> error + controller" where
  "init a tstep ctrl_params pid_form =
     bind (py_index ctrl_params 0) (\<lambda>kP.
     bind (time_constants kP ctrl_params pid_form) (\<lambda>(ti, td).
     bind (windup a tstep kP ti) (\<lambda>(ui, w).
     Inr (reset \<lparr>dt = tstep, ctrl_gain = kP, integralTs = ti, derivativeTs = td,
                 use_integrator = ui, integrator_windup_cutoff = w,
                 accum_errs = Scalar 0, prev_err = Scalar 0\<rparr>))))"

text \<open>
  \<^verbatim>\<open>integralError(err)\<close>: the returned term and the controller with the updated
  accumulator.
\<close>

definition integralError :: "controller \<Rightarrow> tensor \<Rightarrow> error + val \<times> controller" where
  "integralError c err =
     (if \<not> use_integrator c then Inr (Scalar 0, c)
      else
        bind (bop (\<lambda>x acc. acc + x) (tmap (\<lambda>x. dt c * x) err) (accum_errs c)) (\<lambda>acc.
        bind (case integrator_windup_cutoff c of
                None \<Rightarrow> Inl AttributeError | Some w \<Rightarrow> Inr w) (\<lambda>w.
        let acc' = clamp_tensor acc w in
        bind (py_div 1.0 (integralTs c)) (\<lambda>k.
        Inr (Tensor (tmap (\<lambda>x. k * x) acc'), c\<lparr>accum_errs := Tensor acc'\<rparr>)))))"

text \<open>
  \<^verbatim>\<open>rateError(err)\<close>. Dividing a tensor by a zero \<open>dt\<close> raises nothing in torch and
  yields inf or nan entries, which have no real value: the model stops with
  \<open>NonFinite\<close>.
\<close>

definition rateError :: "controller \<Rightarrow> tensor \<Rightarrow> error + val \<times> controller" where
  "rateError c err =
     bind (bop (\<lambda>x p. x - p) err (prev_err c)) (\<lambda>d.
     if dt c = 0 then Inl NonFinite
     else Inr (Tensor (tmap (\<lambda>x. derivativeTs c * x / dt c) d), c\<lparr>prev_err := Tensor err\<rparr>))"

text \<open>
  \<^verbatim>\<open>process_force()\<close>: reads \<^verbatim>\<open>agent.action.u\<close> and \<^verbatim>\<open>agent.state.vel\<close>, and writes
  the force back to \<^verbatim>\<open>agent.action.u\<close>.
\<close>

definition process_force :: "controller \<Rightarrow> agent \<Rightarrow> error + controller \<times> agent" where
  "process_force c a =
     (let des_vel = action_u a; cur_vel = state_vel a in
      bind (bop (\<lambda>x y. x - y) des_vel (Tensor cur_vel)) (\<lambda>err.
      bind (integralError c err) (\<lambda>(i, c1).
      bind (bop (\<lambda>x y. x + y) err i) (\<lambda>s1.
      bind (rateError c1 err) (\<lambda>(d, c2).
      bind (bop (\<lambda>x y. x + y) s1 d) (\<lambda>s2.
      let u0 = tmap (\<lambda>x. ctrl_gain c * x) s2;
          u1 = tmap (\<lambda>x. x * mass a) u0;
          u2 = (case max_f a of None \<Rightarrow> u1 | Some m \<Rightarrow> clamp_with_norm u1 m);
          u3 = (case f_range a of None \<Rightarrow> u2 | Some r \<Rightarrow> tmap (torch_clamp (- r) r) u2)
      in Inr (c2, a\<lparr>action_u := u3\<rparr>)))))))"

section \<open>Call sequences\<close>

text \<open>
  The simulator owns the agent: before a tick it stores the velocity target in
  \<^verbatim>\<open>agent.action.u\<close> and the physics step has updated \<^verbatim>\<open>agent.state.vel\<close>.
  A call of the controller's interface is a reset or a \<^verbatim>\<open>process_force()\<close> that
  finds the agent in some state.
\<close>

datatype call = Reset | ProcessForce agent

fun calls :: "controller \<Rightarrow> call list \<Rightarrow> error + controller" where
  "calls c [] = Inr c"
| "calls c (Reset # cs) = calls (reset c) cs"
| "calls c (ProcessForce a # cs) = bind (process_force c a) (\<lambda>(c', a'). calls c' cs)"

text \<open>
  One \<^verbatim>\<open>process_force()\<close> per tick on the inputs \<open>(desired velocity, current velocity)\<close>
  of that tick; the forces written to the agent are collected in order.
\<close>

fun ticks :: "controller \<Rightarrow> agent \<Rightarrow> (tensor \<times> tensor) list \<Rightarrow> error + tensor list \<times> controller" where
  "ticks c a [] = Inr ([], c)"
| "ticks c a ((des_vel, cur_vel) # rest) =
     bind (process_force c (a\<lparr>action_u := des_vel, state_vel := cur_vel\<rparr>)) (\<lambda>(c', a').
     bind (ticks c' a' rest) (\<lambda>(outs, c'').
     Inr (action_u a' # outs, c'')))"

text \<open>Entry \<open>i\<close> of a batch, as a batch of one.\<close>

definition entry :: "nat \<Rightarrow> tensor \<Rightarrow> tensor" where
  "entry i t = [t ! i]"

fun val_entry :: "nat \<Rightarrow> val \<Rightarrow> val" where
  "val_entry i (Scalar s) = Scalar s"
| "val_entry i (Tensor t) = Tensor (entry i t)"

definition ctrl_entry :: "nat \<Rightarrow> controller \<Rightarrow> controller" where
  "ctrl_entry i c = c\<lparr>accum_errs := val_entry i (accum_errs c), prev_err := val_entry i (prev_err c)\<rparr>"

definition inputs_entry :: "nat \<Rightarrow> (tensor \<times> tensor) list \<Rightarrow> (tensor \<times> tensor) list" where
  "inputs_entry i inputs = map (\<lambda>(des_vel, cur_vel). (entry i des_vel, entry i cur_vel)) inputs"

text \<open>Every entry of a state value is at most \<open>w\<close> in magnitude.\<close>

fun bounded_by :: "real \<Rightarrow> val \<Rightarrow> bool" where
  "bounded_by w (Scalar s) = (\<bar>s\<bar> \<le> w)"
| "bounded_by w (Tensor t) = list_all (list_all (\<lambda>x. \<bar>x\<bar> \<le> w)) t"

section \<open>The specification's force law\<close>

text \<open>
  The limits of steps 4 and 5 of the specification's \<open>process_force\<close>: the clamp by
  Euclidean norm to \<open>max_force\<close> when present, then the clamp of each component to
  \<open>[-force_range, +force_range]\<close> when present.
\<close>

definition spec_limits :: "agent \<Rightarrow> tensor \<Rightarrow> tensor" where
  "spec_limits a force =
     (let by_norm = (case max_f a of Some m \<Rightarrow> clamp_with_norm force m | None \<Rightarrow> force)
      in case f_range a of Some r \<Rightarrow> clamp_tensor by_norm r | None \<Rightarrow> by_norm)"

section \<open>Calls that return\<close>

text \<open>
  A state value fits a tensor when it is the initial scalar or a tensor of that shape.
\<close>

fun fits :: "val \<Rightarrow> tensor \<Rightarrow> bool" where
  "fits (Scalar s) t = True"
| "fits (Tensor r) t = same_shape t r"

text \<open>
  The contract under which \<^verbatim>\<open>process_force()\<close> runs: desired and current velocity have
  one shape, the memory of the derivative term fits it, the timestep is not zero and,
  when the integrator is used, its accumulator fits too, its time constant is not zero
  and its windup limit is set.
\<close>

definition ready :: "controller \<Rightarrow> agent \<Rightarrow> bool" where
  "ready c a =
     (same_shape (action_u a) (state_vel a)
      \<and> fits (prev_err c) (action_u a)
      \<and> dt c \<noteq> 0
      \<and> (use_integrator c \<longrightarrow>
            fits (accum_errs c) (action_u a) \<and> integralTs c \<noteq> 0
            \<and> integrator_windup_cutoff c \<noteq> None))"

section \<open>Floating-point rounding in the constructor\<close>

text \<open>
  Python floats are IEEE 754 binary64 numbers, and each arithmetic operation returns the
  exact result rounded to the nearest such number, ties to even. \<open>rne\<close> rounds a real to
  the nearest integer, ties to even; \<open>binary64\<close> rounds a real to 53 significant bits.
  The exponent range is not bounded: overflow, subnormal numbers and signed zeros are not
  represented.
\<close>

definition rne :: "real \<Rightarrow> int" where
  "rne x = (let f = \<lfloor>x\<rfloor>; r = x - of_int f
            in if r < 1 / 2 then f else if 1 / 2 < r then f + 1
               else if even f then f else f + 1)"

definition binary64 :: "real \<Rightarrow> real" where
  "binary64 x =
     (if x = 0 then 0
      else let e = \<lfloor>log 2 \<bar>x\<bar>\<rfloor> - 52
           in of_int (rne (x / 2 powr of_int e)) * 2 powr of_int e)"

text \<open>
  The constructor with every arithmetic operation of lines 35, 36 and 47 rounded by
  \<open>rnd\<close>: with the identity for \<open>rnd\<close> it is \<open>init\<close>, with \<open>binary64\<close> it computes as
  Python does.
\<close>

definition rdiv :: "(real \<Rightarrow> real) \<Rightarrow> real \<Rightarrow> real \<Rightarrow> error + real" where
  "rdiv rnd a b = (if b = 0 then Inl ZeroDivisionError else Inr (rnd (a / b)))"

definition time_constants_rnd ::
    "(real \<Rightarrow> real) \<Rightarrow> real \<Rightarrow> real list \<Rightarrow> string \<Rightarrow> error + real \<times> real" where
  "time_constants_rnd rnd kP ctrl_params pid_form =
     (if pid_form = ''standard'' then
        bind (py_index ctrl_params 1) (\<lambda>ti.
        bind (py_index ctrl_params 2) (\<lambda>td.
        Inr (ti, td)))
      else if pid_form = ''parallel'' then
        bind (py_index ctrl_params 1) (\<lambda>kI.
        bind (if kI = 0 then Inr 0 else rdiv rnd kP kI) (\<lambda>ti.
        bind (py_index ctrl_params 2) (\<lambda>kD.
        bind (rdiv rnd kD kP) (\<lambda>td.
        Inr (ti, td)))))
      else Inl (PyException ''PID form is either standard or parallel.''))"

definition windup_rnd ::
    "(real \<Rightarrow> real) \<Rightarrow> agent \<Rightarrow> real \<Rightarrow> real \<Rightarrow> real \<Rightarrow> error + bool \<times> real option" where
  "windup_rnd rnd a tstep kP ti =
     (if ti = 0 then Inr (False, None)
      else
        let fmax = (case max_f a of Some m \<Rightarrow> m | None \<Rightarrow> 2.0)
        in bind (rdiv rnd (rnd (rnd (0.5 * fmax) * ti)) (rnd (tstep * kP))) (\<lambda>w.
           Inr (True, Some w)))"

definition init_rnd ::
    "(real \<Rightarrow> real) \<Rightarrow> agent \<Rightarrow> real \<Rightarrow> real list \<Rightarrow> string \<Rightarrow> error + controller" where
  "init_rnd rnd a tstep ctrl_params pid_form =
     bind (py_index ctrl_params 0) (\<lambda>kP.
     bind (time_constants_rnd rnd kP ctrl_params pid_form) (\<lambda>(ti, td).
     bind (windup_rnd rnd a tstep kP ti) (\<lambda>(ui, w).
     Inr (reset \<lparr>dt = tstep, ctrl_gain = kP, integralTs = ti, derivativeTs = td,
                 use_integrator = ui, integrator_windup_cutoff = w,
                 accum_errs = Scalar 0, prev_err = Scalar 0\<rparr>))))"

section \<open>Example inputs\<close>

text \<open>
  The agent of the specification's example scenario: one batch entry in one dimension,
  desired velocity 1, current velocity 0, mass 1 and no force limits.
\<close>

definition ex_agent :: agent where
  "ex_agent = \<lparr>action_u = [[1]], state_vel = [[0]], mass = 1, max_f = None, f_range = None\<rparr>"

text \<open>
  A proportional controller: gain 1, no integral and no derivative term.
\<close>

definition p_ctrl :: controller where
  "p_ctrl = \<lparr>dt = 0.1, ctrl_gain = 1, integralTs = 0, derivativeTs = 0,
              use_integrator = False, integrator_windup_cutoff = None,
              accum_errs = Scalar 0, prev_err = Scalar 0\<rparr>"

text \<open>
  The controller of the example scenario, as constructed from \<open>dt = 0.1\<close> and standard
  form \<open>[1, 5, 0]\<close>.
\<close>

definition ex_ctrl :: controller where
  "ex_ctrl = \<lparr>dt = 0.1, ctrl_gain = 1, integralTs = 5, derivativeTs = 0,
              use_integrator = True, integrator_windup_cutoff = Some 50,
              accum_errs = Scalar 0, prev_err = Scalar 0\<rparr>"

text \<open>
  A controller in the middle of a run with all three terms active, and an agent in two
  dimensions with mass 3 and both force limits.
\<close>

definition pid_ctrl :: controller where
  "pid_ctrl = \<lparr>dt = 0.5, ctrl_gain = 2, integralTs = 4, derivativeTs = 1,
               use_integrator = True, integrator_windup_cutoff = Some 60,
               accum_errs = Tensor [[4, 0]], prev_err = Tensor [[10, 8.5]]\<rparr>"

definition pid_agent :: agent where
  "pid_agent = \<lparr>action_u = [[9, 10]], state_vel = [[1, 2]], mass = 3,
                max_f = Some 30, f_range = Some 20\<rparr>"

text \<open>
  The controller constructed from \<open>dt = 1\<close> and standard form \<open>[1, -1, 0]\<close>.
\<close>

definition neg_ctrl :: controller where
  "neg_ctrl = \<lparr>dt = 1, ctrl_gain = 1, integralTs = - 1, derivativeTs = 0,
               use_integrator = True, integrator_windup_cutoff = Some (- 1),
               accum_errs = Scalar 0, prev_err = Scalar 0\<rparr>"

section \<open>Basic facts\<close>

lemma bind_Inr [simp]: "bind (Inr x) f = f x"
  by (simp add: bind_def)

lemma bind_Inl [simp]: "bind (Inl e) f = Inl e"
  by (simp add: bind_def)

lemma bind_eq_Inr: "bind m f = Inr y \<longleftrightarrow> (\<exists>x. m = Inr x \<and> f x = Inr y)"
  by (cases m) simp_all

lemma py_index_simps [simp]:
  "i < length xs \<Longrightarrow> py_index xs i = Inr (xs ! i)"
  "\<not> i < length xs \<Longrightarrow> py_index xs i = Inl IndexError"
  by (simp_all add: py_index_def)

lemma py_div_simps [simp]:
  "b \<noteq> 0 \<Longrightarrow> py_div a b = Inr (a / b)"
  "py_div a 0 = Inl ZeroDivisionError"
  by (simp_all add: py_div_def)

lemma time_constants_standard:
  "time_constants kP [kP, ti, td] ''standard'' = Inr (ti, td)"
  by (simp add: time_constants_def)

lemma time_constants_parallel:
  "time_constants kP [kP, kI, kD] ''parallel'' =
     (if kP = 0 then Inl ZeroDivisionError else Inr (if kI = 0 then 0 else kP / kI, kD / kP))"
  by (simp add: time_constants_def)

lemma time_constants_invalid:
  "time_constants kP ps form = Inl InvalidConfiguration
     \<longleftrightarrow> form \<noteq> ''standard'' \<and> form \<noteq> ''parallel''"
  by (auto simp add: time_constants_def InvalidConfiguration_def bind_def py_index_def py_div_def
      split: sum.splits if_splits)

lemma windup_not_invalid: "windup a tstep kP ti \<noteq> Inl InvalidConfiguration"
  by (auto simp add: windup_def InvalidConfiguration_def Let_def py_div_def split: option.splits)

lemma bind_eq_Inl: "bind m f = Inl e \<longleftrightarrow> m = Inl e \<or> (\<exists>x. m = Inr x \<and> f x = Inl e)"
  by (cases m) simp_all

lemma init_invalid:
  assumes "length ps = 3"
  shows "init a tstep ps form = Inl InvalidConfiguration
           \<longleftrightarrow> form \<noteq> ''standard'' \<and> form \<noteq> ''parallel''"
proof -
  have idx: "py_index ps 0 = Inr (ps ! 0)" using assms by simp
  have "init a tstep ps form = Inl InvalidConfiguration \<longleftrightarrow>
        time_constants (ps ! 0) ps form = Inl InvalidConfiguration"
    unfolding init_def idx
    by (auto simp add: bind_eq_Inl windup_not_invalid split: prod.splits)
  then show ?thesis by (simp add: time_constants_invalid)
qed

lemma windup_ok: "tstep \<noteq> 0 \<Longrightarrow> kP \<noteq> 0 \<Longrightarrow> \<exists>ui w. windup a tstep kP ti = Inr (ui, w)"
  by (cases "ti = 0") (auto simp add: windup_def Let_def)

lemma time_constants_ok:
  "length ps = 3 \<Longrightarrow> ps ! 0 \<noteq> 0 \<Longrightarrow> form = ''standard'' \<or> form = ''parallel'' \<Longrightarrow>
     \<exists>ti td. time_constants (ps ! 0) ps form = Inr (ti, td)"
  by (auto simp add: time_constants_def)

lemma init_ok:
  assumes "length ps = 3" "tstep \<noteq> 0" "ps ! 0 \<noteq> 0" "form = ''standard'' \<or> form = ''parallel''"
  shows "\<exists>c. init a tstep ps form = Inr c"
proof -
  have idx: "py_index ps 0 = Inr (ps ! 0)" using assms by simp
  obtain ti td where tc: "time_constants (ps ! 0) ps form = Inr (ti, td)"
    using time_constants_ok [OF assms(1,3,4)] by blast
  obtain ui w where wu: "windup a tstep (ps ! 0) ti = Inr (ui, w)"
    using windup_ok [OF assms(2,3), of a ti] by blast
  show ?thesis unfolding init_def idx by (simp add: tc wu)
qed

lemma integralError_frame:
  "integralError c err = Inr (i, c') \<Longrightarrow> c' = c\<lparr>accum_errs := accum_errs c'\<rparr>"
  by (auto simp add: integralError_def bind_eq_Inr Let_def split: if_splits)

lemma rateError_frame:
  "rateError c err = Inr (d, c') \<Longrightarrow> c' = c\<lparr>prev_err := Tensor err\<rparr>"
  by (auto simp add: rateError_def bind_eq_Inr split: if_splits)

lemma process_force_cases:
  assumes "process_force c a = Inr (c', a')"
  obtains err i c1 s1 d s2 where
    "bop (\<lambda>x y. x - y) (action_u a) (Tensor (state_vel a)) = Inr err"
    "integralError c err = Inr (i, c1)"
    "bop (\<lambda>x y. x + y) err i = Inr s1"
    "rateError c1 err = Inr (d, c')"
    "bop (\<lambda>x y. x + y) s1 d = Inr s2"
    "a' = a\<lparr>action_u :=
        (let u1 = tmap (\<lambda>x. x * mass a) (tmap (\<lambda>x. ctrl_gain c * x) s2);
             u2 = (case max_f a of None \<Rightarrow> u1 | Some m \<Rightarrow> clamp_with_norm u1 m)
         in case f_range a of None \<Rightarrow> u2 | Some r \<Rightarrow> tmap (torch_clamp (- r) r) u2)\<rparr>"
  using assms unfolding process_force_def Let_def
  by (auto simp add: bind_eq_Inr split: prod.splits)

lemma process_force_frame:
  assumes "process_force c a = Inr (c', a')"
  shows "c' = c\<lparr>accum_errs := accum_errs c', prev_err := prev_err c'\<rparr>"
    and "a' = a\<lparr>action_u := action_u a'\<rparr>"
proof -
  from assms obtain err i c1 s1 d s2 where
    ie: "integralError c err = Inr (i, c1)" and re: "rateError c1 err = Inr (d, c')"
    and a': "a' = a\<lparr>action_u :=
        (let u1 = tmap (\<lambda>x. x * mass a) (tmap (\<lambda>x. ctrl_gain c * x) s2);
             u2 = (case max_f a of None \<Rightarrow> u1 | Some m \<Rightarrow> clamp_with_norm u1 m)
         in case f_range a of None \<Rightarrow> u2 | Some r \<Rightarrow> tmap (torch_clamp (- r) r) u2)\<rparr>"
    by (rule process_force_cases)
  have "c1 = c\<lparr>accum_errs := accum_errs c1\<rparr>" using ie by (rule integralError_frame)
  moreover have "c' = c1\<lparr>prev_err := Tensor err\<rparr>" using re by (rule rateError_frame)
  ultimately show "c' = c\<lparr>accum_errs := accum_errs c', prev_err := prev_err c'\<rparr>"
    by (cases c, cases c1, cases c') simp
  show "a' = a\<lparr>action_u := action_u a'\<rparr>" by (subst (2) a', subst a') simp
qed

lemma calls_frame:
  "calls c cs = Inr c' \<Longrightarrow> c' = c\<lparr>accum_errs := accum_errs c', prev_err := prev_err c'\<rparr>"
proof (induction cs arbitrary: c)
  case Nil
  then show ?case by simp
next
  case (Cons k cs)
  show ?case
  proof (cases k)
    case Reset
    with Cons.prems have "calls (reset c) cs = Inr c'" by simp
    then have "c' = (reset c)\<lparr>accum_errs := accum_errs c', prev_err := prev_err c'\<rparr>"
      by (rule Cons.IH)
    then show ?thesis by (simp add: reset_def)
  next
    case (ProcessForce a)
    with Cons.prems obtain c1 a1 where pf: "process_force c a = Inr (c1, a1)"
      and rest: "calls c1 cs = Inr c'"
      by (auto simp add: bind_eq_Inr)
    have "c' = c1\<lparr>accum_errs := accum_errs c', prev_err := prev_err c'\<rparr>"
      using rest by (rule Cons.IH)
    moreover have "c1 = c\<lparr>accum_errs := accum_errs c1, prev_err := prev_err c1\<rparr>"
      using pf by (rule process_force_frame)
    ultimately show ?thesis by (cases c, cases c1, cases c') simp
  qed
qed

lemma init_fields:
  assumes "init a tstep ps form = Inr c"
  obtains td where "time_constants (ps ! 0) ps form = Inr (integralTs c, td)"
    "derivativeTs c = td" "dt c = tstep" "ctrl_gain c = ps ! 0" "ps \<noteq> []"
    "windup a tstep (ps ! 0) (integralTs c) = Inr (use_integrator c, integrator_windup_cutoff c)"
    "accum_errs c = Scalar 0" "prev_err c = Scalar 0"
  using assms unfolding init_def
  by (auto simp add: bind_eq_Inr py_index_def reset_def split: if_splits prod.splits)

lemma init_start:
  "init a tstep ps form = Inr c \<Longrightarrow> accum_errs c = Scalar 0 \<and> prev_err c = Scalar 0"
  by (erule init_fields) simp

section \<open>Construction\<close>

lemma init_eval:
  "init a tstep [kP, p1, p2] form =
     bind (time_constants kP [kP, p1, p2] form) (\<lambda>(ti, td).
     bind (windup a tstep kP ti) (\<lambda>(ui, w).
     Inr \<lparr>dt = tstep, ctrl_gain = kP, integralTs = ti, derivativeTs = td,
          use_integrator = ui, integrator_windup_cutoff = w,
          accum_errs = Scalar 0, prev_err = Scalar 0\<rparr>))"
  by (simp add: init_def reset_def)

text \<open>
  Claim C6. For a three-element parameter vector, construction fails with the
  InvalidConfiguration exception exactly when the form selector is neither
  \<^verbatim>\<open>standard\<close> nor \<^verbatim>\<open>parallel\<close>; in that case no controller is returned; and for
  the two valid selectors construction returns a controller whenever the timestep and
  the gain \<open>kP\<close> are not zero.
\<close>

theorem init_InvalidConfiguration_iff:
  assumes "length ctrl_params = 3"
  shows "(init a tstep ctrl_params pid_form = Inl InvalidConfiguration
            \<longleftrightarrow> pid_form \<noteq> ''standard'' \<and> pid_form \<noteq> ''parallel'')
       \<and> (pid_form \<noteq> ''standard'' \<and> pid_form \<noteq> ''parallel''
            \<longrightarrow> (\<forall>c. init a tstep ctrl_params pid_form \<noteq> Inr c))
       \<and> ((pid_form = ''standard'' \<or> pid_form = ''parallel'') \<and> tstep \<noteq> 0 \<and> ctrl_params ! 0 \<noteq> 0
            \<longrightarrow> (\<exists>c. init a tstep ctrl_params pid_form = Inr c))"
proof (intro conjI impI)
  show iff: "init a tstep ctrl_params pid_form = Inl InvalidConfiguration
            \<longleftrightarrow> pid_form \<noteq> ''standard'' \<and> pid_form \<noteq> ''parallel''"
    using assms by (rule init_invalid)
  show "\<forall>c. init a tstep ctrl_params pid_form \<noteq> Inr c"
    if "pid_form \<noteq> ''standard'' \<and> pid_form \<noteq> ''parallel''"
    using that iff by simp
  show "\<exists>c. init a tstep ctrl_params pid_form = Inr c"
    if "(pid_form = ''standard'' \<or> pid_form = ''parallel'') \<and> tstep \<noteq> 0 \<and> ctrl_params ! 0 \<noteq> 0"
    using that assms by (intro init_ok) simp_all
qed

theorem init_InvalidConfiguration_iff_witness:
  "init ex_agent 0.1 [1, 5, 0] ''series'' = Inl InvalidConfiguration
   \<and> (\<exists>c. init ex_agent 0.1 [1, 5, 0] ''standard'' = Inr c)
   \<and> (\<exists>c. init ex_agent 0.1 [1, 0.2, 0] ''parallel'' = Inr c)"
  using init_InvalidConfiguration_iff [of "[1, 5, 0]" ex_agent "0.1" "''series''"]
    init_InvalidConfiguration_iff [of "[1, 5, 0]" ex_agent "0.1" "''standard''"]
    init_InvalidConfiguration_iff [of "[1, 0.2, 0]" ex_agent "0.1" "''parallel''"]
  by simp

text \<open>
  Claim C5. In parallel form \<open>[kP, kI, kD]\<close> a controller that is returned has
  \<open>kP \<noteq> 0\<close>, integral time constant \<open>0\<close> if \<open>kI = 0\<close> and \<open>kP / kI\<close> otherwise, and
  derivative time constant \<open>kD / kP\<close>. With \<open>kI = 0\<close> and \<open>kP \<noteq> 0\<close> construction
  succeeds, so no division by \<open>kI\<close> is performed. The division by \<open>kP\<close> is not guarded:
  with \<open>kP = 0\<close> construction ends in Python's own ZeroDivisionError, not in a dedicated
  check.
\<close>

theorem parallel_form_time_constants:
  "(init a tstep [kP, kI, kD] ''parallel'' = Inr c \<longrightarrow>
      kP \<noteq> 0 \<and> integralTs c = (if kI = 0 then 0 else kP / kI) \<and> derivativeTs c = kD / kP)
   \<and> (kI = 0 \<and> kP \<noteq> 0 \<longrightarrow>
      (\<exists>c0. init a tstep [kP, kI, kD] ''parallel'' = Inr c0 \<and> integralTs c0 = 0 \<and> \<not> use_integrator c0))
   \<and> (kP = 0 \<longrightarrow> init a tstep [kP, kI, kD] ''parallel'' = Inl ZeroDivisionError)"
proof -
  have 1: "kP \<noteq> 0 \<and> integralTs c = (if kI = 0 then 0 else kP / kI) \<and> derivativeTs c = kD / kP"
    if "init a tstep [kP, kI, kD] ''parallel'' = Inr c"
    using that
    by (auto simp add: init_eval time_constants_parallel bind_eq_Inr split: if_splits)
  have 2: "\<exists>c0. init a tstep [kP, kI, kD] ''parallel'' = Inr c0 \<and> integralTs c0 = 0 \<and> \<not> use_integrator c0"
    if "kI = 0 \<and> kP \<noteq> 0"
    using that by (simp add: init_eval time_constants_parallel windup_def)
  have 3: "init a tstep [kP, kI, kD] ''parallel'' = Inl ZeroDivisionError" if "kP = 0"
    using that by (simp add: init_eval time_constants_parallel)
  from 1 2 3 show ?thesis by blast
qed

theorem parallel_form_time_constants_witness:
  "(\<exists>c. init ex_agent 0.1 [2, 0.5, 3] ''parallel'' = Inr c \<and> integralTs c = 4 \<and> derivativeTs c = 1.5)
   \<and> (\<exists>c. init ex_agent 0.1 [2, 0, 3] ''parallel'' = Inr c \<and> integralTs c = 0)
   \<and> init ex_agent 0.1 [0, 0.5, 3] ''parallel'' = Inl ZeroDivisionError"
proof -
  obtain c where c: "init ex_agent 0.1 [2, 0.5, 3] ''parallel'' = Inr c"
    by (simp add: init_eval time_constants_parallel windup_def ex_agent_def)
  show ?thesis
    using c parallel_form_time_constants [of ex_agent "0.1" 2 "0.5" 3 c]
      parallel_form_time_constants [of ex_agent "0.1" 2 0 3]
      parallel_form_time_constants [of ex_agent "0.1" 0 "0.5" 3]
    by auto
qed

lemma rdiv_exact: "rdiv (\<lambda>x. x) a b = py_div a b"
  by (simp add: rdiv_def py_div_def)

lemma init_rnd_exact: "init_rnd (\<lambda>x. x) a tstep ps form = init a tstep ps form"
  unfolding init_rnd_def init_def time_constants_rnd_def time_constants_def
    windup_rnd_def windup_def rdiv_exact
  by (rule refl)

lemma binary64_eval:
  assumes "2 ^ 52 \<le> \<bar>x\<bar> * 2 ^ k" and "\<bar>x\<bar> * 2 ^ k < 2 ^ 53"
  shows "binary64 x = of_int (rne (x * 2 ^ k)) / 2 ^ k"
proof -
  have nz: "x \<noteq> 0" using assms(1) by auto
  have p: "(2::real) powr (52 - int k) = 2 ^ 52 / 2 ^ k"
    by (simp add: powr_diff powr_realpow)
  have q: "(2::real) powr (52 - int k + 1) = 2 ^ 53 / 2 ^ k"
    by (simp add: powr_diff powr_add powr_realpow)
  have "\<lfloor>log 2 \<bar>x\<bar>\<rfloor> = 52 - int k"
  proof (subst floor_log_eq_powr_iff)
    show "0 < \<bar>x\<bar>" using nz by simp
    show "(1::real) < 2" by simp
    have lo: "2 ^ 52 / 2 ^ k \<le> \<bar>x\<bar>" using assms(1) by (simp add: field_simps)
    have hi: "\<bar>x\<bar> < 2 ^ 53 / 2 ^ k" using assms(2) by (simp add: field_simps)
    show "2 powr real_of_int (52 - int k) \<le> \<bar>x\<bar> \<and> \<bar>x\<bar> < 2 powr real_of_int (52 - int k + 1)"
      using lo hi unfolding p q by (rule conjI)
  qed
  then have e: "\<lfloor>log 2 \<bar>x\<bar>\<rfloor> - 52 = - int k" by simp
  have "(2::real) powr of_int (- int k) = 1 / 2 ^ k"
    by (simp add: powr_minus powr_realpow field_simps)
  then show ?thesis using nz by (simp add: binary64_def e Let_def)
qed

lemma rdiv_simps [simp]:
  "b \<noteq> 0 \<Longrightarrow> rdiv rnd a b = Inr (rnd (a / b))"
  "rdiv rnd a 0 = Inl ZeroDivisionError"
  by (simp_all add: rdiv_def)

lemma time_constants_rnd_standard:
  "time_constants_rnd rnd kP [kP, ti, td] ''standard'' = Inr (ti, td)"
  by (simp add: time_constants_rnd_def)

lemma time_constants_rnd_parallel:
  "kP \<noteq> 0 \<Longrightarrow> kI \<noteq> 0 \<Longrightarrow>
     time_constants_rnd rnd kP [kP, kI, kD] ''parallel'' = Inr (rnd (kP / kI), rnd (kD / kP))"
  by (simp add: time_constants_rnd_def)

lemma init_rnd_eval:
  "init_rnd rnd a tstep [kP, p1, p2] form =
     bind (time_constants_rnd rnd kP [kP, p1, p2] form) (\<lambda>(ti, td).
     bind (windup_rnd rnd a tstep kP ti) (\<lambda>(ui, w).
     Inr \<lparr>dt = tstep, ctrl_gain = kP, integralTs = ti, derivativeTs = td,
          use_integrator = ui, integrator_windup_cutoff = w,
          accum_errs = Scalar 0, prev_err = Scalar 0\<rparr>))"
  by (simp add: init_rnd_def reset_def)

lemma init_rnd_returns:
  assumes "time_constants_rnd rnd kP [kP, p1, p2] form = Inr (ti, td)"
    and "rnd (tstep * kP) \<noteq> 0"
  shows "\<exists>c. init_rnd rnd a tstep [kP, p1, p2] form = Inr c
             \<and> integralTs c = ti \<and> derivativeTs c = td"
  using assms by (cases "ti = 0") (simp_all add: init_rnd_eval windup_rnd_def Let_def)

text \<open>
  Claim C4, amended. Let \<open>Ti \<noteq> 0\<close> and \<open>kP \<noteq> 0\<close>, and let the parallel parameters
  \<open>kP / Ti\<close> and \<open>kP * Td\<close> be computed with the rounding \<open>rnd\<close>. If the round trip of
  the conversion is exact, that is \<open>kP / (kP / Ti)\<close> returns \<open>Ti\<close> and
  \<open>(kP * Td) / kP\<close> returns \<open>Td\<close> (as always in exact arithmetic), then constructing
  with the parallel form and with the standard form \<open>[kP, Ti, Td]\<close> gives the same result:
  identical time constants and identical output forces on identical inputs. In general
  the parallel form's constants are the rounded quotients \<open>kP / kI\<close> and \<open>kD / kP\<close>.
\<close>

theorem form_equivalence:
  assumes "ti \<noteq> 0" and "kP \<noteq> 0"
    and "rnd (kP / ti) \<noteq> 0"
    and "rnd (kP / rnd (kP / ti)) = ti"
    and "rnd (rnd (kP * td) / kP) = td"
  shows "init_rnd rnd a tstep [kP, rnd (kP / ti), rnd (kP * td)] ''parallel''
           = init_rnd rnd a tstep [kP, ti, td] ''standard''
       \<and> (\<forall>c1 c2. init_rnd rnd a tstep [kP, ti, td] ''standard'' = Inr c1
                  \<and> init_rnd rnd a tstep [kP, rnd (kP / ti), rnd (kP * td)] ''parallel'' = Inr c2
            \<longrightarrow> integralTs c1 = integralTs c2 \<and> derivativeTs c1 = derivativeTs c2
               \<and> (\<forall>ag inputs. ticks c1 ag inputs = ticks c2 ag inputs))
       \<and> (\<forall>kI kD c. kI \<noteq> 0
                  \<and> init_rnd rnd a tstep [kP, kI, kD] ''parallel'' = Inr c
            \<longrightarrow> integralTs c = rnd (kP / kI) \<and> derivativeTs c = rnd (kD / kP))"
proof -
  have "time_constants_rnd rnd kP [kP, rnd (kP / ti), rnd (kP * td)] ''parallel'' = Inr (ti, td)"
    using assms by (simp add: time_constants_rnd_parallel)
  then have 1: "init_rnd rnd a tstep [kP, rnd (kP / ti), rnd (kP * td)] ''parallel''
           = init_rnd rnd a tstep [kP, ti, td] ''standard''"
    by (simp add: init_rnd_eval time_constants_rnd_standard)
  have 3: "integralTs c = rnd (kP / kI) \<and> derivativeTs c = rnd (kD / kP)"
    if "kI \<noteq> 0 \<and> init_rnd rnd a tstep [kP, kI, kD] ''parallel'' = Inr c" for kI kD c
    using that assms(2)
    by (auto simp add: init_rnd_eval time_constants_rnd_parallel bind_eq_Inr)
  from 1 3 show ?thesis by auto
qed

lemma binary64_0: "binary64 0 = 0"
  by (simp add: binary64_def)

lemma binary64_1: "binary64 1 = 1"
  by (simp add: binary64_eval [of _ 52] rne_def)

lemma binary64_3: "binary64 3 = 3"
  by (simp add: binary64_eval [of _ 51] rne_def)

lemma binary64_4: "binary64 4 = 4"
  by (simp add: binary64_eval [of _ 50] rne_def)

lemma binary64_quarter: "binary64 (1 / 4) = 1 / 4"
  by (simp add: binary64_eval [of _ 54] rne_def)

lemma binary64_half: "binary64 (1 / 2) = 1 / 2"
  by (simp add: binary64_eval [of _ 53] rne_def)

lemma binary64_49th: "binary64 (1 / 49) = 5882252574524729 / 2 ^ 58"
  by (simp add: binary64_eval [of _ 58] rne_def)

lemma binary64_round_trip_49:
  "binary64 (1 / (5882252574524729 / 2 ^ 58)) = 49 + 1 / 2 ^ 47"
  by (simp add: binary64_eval [of _ 47] rne_def)

theorem form_equivalence_witness:
  "(\<exists>c. init ex_agent 0.1 [2, 5, 3] ''standard'' = Inr c
       \<and> init ex_agent 0.1 [2, 2 / 5, 2 * 3] ''parallel'' = Inr c
       \<and> integralTs c = 5 \<and> derivativeTs c = 3)
   \<and> (\<exists>c. init_rnd binary64 ex_agent (1 / 2) [1, 4, 3] ''standard'' = Inr c
       \<and> init_rnd binary64 ex_agent (1 / 2) [1, binary64 (1 / 4), binary64 (1 * 3)] ''parallel'' = Inr c
       \<and> integralTs c = 4 \<and> derivativeTs c = 3)"
proof -
  obtain c where c: "init ex_agent 0.1 [2, 5, 3] ''standard'' = Inr c"
      and "integralTs c = 5" and "derivativeTs c = 3"
    by (simp add: init_eval time_constants_standard windup_def ex_agent_def)
  then have exact: "\<exists>c. init ex_agent 0.1 [2, 5, 3] ''standard'' = Inr c
       \<and> init ex_agent 0.1 [2, 2 / 5, 2 * 3] ''parallel'' = Inr c
       \<and> integralTs c = 5 \<and> derivativeTs c = 3"
    using form_equivalence [of 5 2 "\<lambda>x. x" 3 ex_agent "0.1"]
    by (auto simp add: init_rnd_exact)
  have s: "time_constants_rnd binary64 1 [1, 4, 3] ''standard'' = Inr (4, 3)"
    by (rule time_constants_rnd_standard)
  have r: "binary64 (1 / 2 * 1) \<noteq> 0" by (simp add: binary64_half)
  obtain c' where c': "init_rnd binary64 ex_agent (1 / 2) [1, 4, 3] ''standard'' = Inr c'"
      and "integralTs c' = 4" and "derivativeTs c' = 3"
    using init_rnd_returns [OF s r] by blast
  then have "\<exists>c. init_rnd binary64 ex_agent (1 / 2) [1, 4, 3] ''standard'' = Inr c
       \<and> init_rnd binary64 ex_agent (1 / 2) [1, binary64 (1 / 4), binary64 (1 * 3)] ''parallel'' = Inr c
       \<and> integralTs c = 4 \<and> derivativeTs c = 3"
    using form_equivalence [of 4 1 binary64 3 ex_agent "1 / 2"]
    by (auto simp add: binary64_quarter binary64_4 binary64_3)
  with exact show ?thesis by blast
qed

text \<open>
  In binary64 arithmetic the round trip is not always exact: for \<open>kP = 1\<close> and
  \<open>Ti = 49\<close> the parallel form's integral time constant is \<open>49 + 1 / 2 ^ 47\<close>
  (printed by Python as 49.00000000000001), not 49.
\<close>

theorem form_equivalence_rounding:
  "\<exists>c1 c2. init_rnd binary64 ex_agent 1 [1, 49, 0] ''standard'' = Inr c1
     \<and> init_rnd binary64 ex_agent 1 [1, binary64 (1 / 49), binary64 (1 * 0)] ''parallel'' = Inr c2
     \<and> integralTs c1 = 49 \<and> integralTs c2 = 49 + 1 / 2 ^ 47
     \<and> integralTs c1 \<noteq> integralTs c2"
proof -
  have r: "binary64 (1 * 1) \<noteq> 0" by (simp add: binary64_1)
  have s: "time_constants_rnd binary64 1 [1, 49, 0] ''standard'' = Inr (49, 0)"
    by (rule time_constants_rnd_standard)
  obtain c1 where c1: "init_rnd binary64 ex_agent 1 [1, 49, 0] ''standard'' = Inr c1"
    and t1: "integralTs c1 = 49"
    using init_rnd_returns [OF s r] by blast
  have z: "binary64 (1 * 0) = 0" "binary64 (0 / 1) = 0" by (simp_all add: binary64_0)
  have "time_constants_rnd binary64 1 [1, binary64 (1 / 49), binary64 (1 * 0)] ''parallel''
      = Inr (binary64 (1 / binary64 (1 / 49)), binary64 (binary64 (1 * 0) / 1))"
    by (rule time_constants_rnd_parallel) (simp_all add: binary64_49th)
  then have p: "time_constants_rnd binary64 1 [1, binary64 (1 / 49), binary64 (1 * 0)] ''parallel''
      = Inr (49 + 1 / 2 ^ 47, 0)"
    by (simp only: z binary64_49th binary64_round_trip_49)
  obtain c2 where
    c2: "init_rnd binary64 ex_agent 1 [1, binary64 (1 / 49), binary64 (1 * 0)] ''parallel'' = Inr c2"
    and t2: "integralTs c2 = 49 + 1 / 2 ^ 47"
    using init_rnd_returns [OF p r] by blast
  have "integralTs c1 \<noteq> integralTs c2" by (simp add: t1 t2)
  with c1 c2 t1 t2 show ?thesis by blast
qed

text \<open>
  Claim C7. A constructed controller that uses the integrator has the windup limit
  \<open>0.5 * force_limit * integral_time_constant / (dt * kP)\<close>, where \<open>force_limit\<close> is the
  agent's \<open>max_f\<close> when present and \<open>2.0\<close> otherwise; no sequence of resets and
  \<open>process_force\<close> calls changes it.
\<close>

theorem windup_cutoff_formula:
  assumes "init a tstep ctrl_params pid_form = Inr c" and "use_integrator c"
  shows "integrator_windup_cutoff c =
           Some (0.5 * (case max_f a of Some m \<Rightarrow> m | None \<Rightarrow> 2.0) * integralTs c / (tstep * ctrl_gain c))
       \<and> (\<forall>cs c'. calls c cs = Inr c' \<longrightarrow> integrator_windup_cutoff c' = integrator_windup_cutoff c)"
proof
  from assms(1) have w: "windup a tstep (ctrl_gain c) (integralTs c)
      = Inr (use_integrator c, integrator_windup_cutoff c)"
    by (elim init_fields) simp
  show "integrator_windup_cutoff c =
           Some (0.5 * (case max_f a of Some m \<Rightarrow> m | None \<Rightarrow> 2.0) * integralTs c / (tstep * ctrl_gain c))"
    using w assms(2)
    by (auto simp add: windup_def Let_def bind_eq_Inr py_div_def split: if_splits)
  show "\<forall>cs c'. calls c cs = Inr c' \<longrightarrow> integrator_windup_cutoff c' = integrator_windup_cutoff c"
  proof (intro allI impI)
    fix cs c' assume "calls c cs = Inr c'"
    then have "c' = c\<lparr>accum_errs := accum_errs c', prev_err := prev_err c'\<rparr>" by (rule calls_frame)
    then show "integrator_windup_cutoff c' = integrator_windup_cutoff c"
      by (cases c, cases c') simp
  qed
qed

theorem windup_cutoff_formula_witness:
  "\<exists>c c'. init ex_agent 0.1 [1, 5, 0] ''standard'' = Inr c
     \<and> integrator_windup_cutoff c = Some 50
     \<and> calls c [Reset] = Inr c'
     \<and> integrator_windup_cutoff c' = Some 50"
proof -
  obtain c where c: "init ex_agent 0.1 [1, 5, 0] ''standard'' = Inr c"
      and u: "use_integrator c" and ti: "integralTs c = 5" and kp: "ctrl_gain c = 1"
    by (simp add: init_eval time_constants_standard windup_def ex_agent_def)
  have r: "calls c [Reset] = Inr (reset c)" by simp
  have m: "max_f ex_agent = None" by (simp add: ex_agent_def)
  note w = windup_cutoff_formula [OF c u]
  from w have 1: "integrator_windup_cutoff c = Some 50" using ti kp m by simp
  from w r have 2: "integrator_windup_cutoff (reset c) = integrator_windup_cutoff c" by blast
  show ?thesis
    using c 1 2 r by (intro exI [of _ c] exI [of _ "reset c"]) simp
qed

section \<open>Evaluation and shapes\<close>

lemmas eval_defs = process_force_def integralError_def rateError_def tmap_def tzip_def
  same_shape_def clamp_tensor_def torch_clamp_def clamp_with_norm_def vector_norm_def Let_def

lemma same_shape_length: "same_shape s t \<Longrightarrow> length s = length t"
  unfolding same_shape_def by (rule map_eq_imp_length_eq)

lemma tmap_const_tzip:
  "same_shape s t \<Longrightarrow> tmap (\<lambda>x. k) (tzip f s t) = tmap (\<lambda>x. k) s"
proof (induction s arbitrary: t)
  case Nil
  then show ?case by (simp add: tmap_def tzip_def)
next
  case (Cons row s)
  then obtain row' t' where t: "t = row' # t'" and l: "length row = length row'"
    and sh: "same_shape s t'"
    by (cases t) (auto simp add: same_shape_def)
  have "map (\<lambda>x. k) (map2 f row row') = map (\<lambda>x. k) row"
    using l by (induction row row' rule: list_induct2) simp_all
  moreover have "tmap (\<lambda>x. k) (tzip f s t') = tmap (\<lambda>x. k) s" using sh by (rule Cons.IH)
  ultimately show ?case by (simp add: t tmap_def tzip_def)
qed

lemma tmap_tmap: "tmap f (tmap g t) = tmap (\<lambda>x. f (g x)) t"
  by (simp add: tmap_def comp_def)

lemma bop_const:
  "bop f t v = Inr d \<Longrightarrow> tmap (\<lambda>x. k) d = tmap (\<lambda>x. k) t"
  by (cases v) (auto simp add: tmap_tmap tmap_const_tzip split: if_splits)

text \<open>
  Claim C8. With a nonzero timestep and \<open>err - prev_err\<close> defined (the memory is the
  initial scalar or a tensor of the shape of \<open>err\<close>), \<open>rateError\<close> returns
  \<open>derivativeTs * (err - prev_err) / dt\<close> computed from the memory before the call, and
  sets \<open>prev_err\<close> to \<open>err\<close>; with \<open>derivativeTs = 0\<close> the returned tensor is zero and
  \<open>prev_err\<close> is updated all the same.
\<close>

theorem rateError_contract:
  assumes "dt c \<noteq> 0" and "bop (\<lambda>x p. x - p) err (prev_err c) = Inr d"
  shows "rateError c err =
           Inr (Tensor (tmap (\<lambda>x. derivativeTs c * x / dt c) d), c\<lparr>prev_err := Tensor err\<rparr>)
       \<and> (derivativeTs c = 0 \<longrightarrow>
           rateError c err = Inr (Tensor (tmap (\<lambda>x. 0) err), c\<lparr>prev_err := Tensor err\<rparr>))"
proof -
  have r: "rateError c err =
           Inr (Tensor (tmap (\<lambda>x. derivativeTs c * x / dt c) d), c\<lparr>prev_err := Tensor err\<rparr>)"
    using assms by (simp add: rateError_def)
  have "tmap (\<lambda>x. 0) d = tmap (\<lambda>x. 0) err" using assms(2) by (rule bop_const)
  with r show ?thesis by simp
qed

theorem rateError_contract_witness:
  "rateError p_ctrl [[1, 2]] = Inr (Tensor [[0, 0]], p_ctrl\<lparr>prev_err := Tensor [[1, 2]]\<rparr>)
   \<and> rateError (p_ctrl\<lparr>prev_err := Tensor [[1, 2]]\<rparr>) [[3, 5]]
       = Inr (Tensor [[0, 0]], p_ctrl\<lparr>prev_err := Tensor [[3, 5]]\<rparr>)
   \<and> rateError (p_ctrl\<lparr>derivativeTs := 0.5, prev_err := Tensor [[1, 2]]\<rparr>) [[3, 5]]
       = Inr (Tensor [[10, 15]], p_ctrl\<lparr>derivativeTs := 0.5, prev_err := Tensor [[3, 5]]\<rparr>)"
proof -
  have d: "dt p_ctrl \<noteq> 0" by (simp add: p_ctrl_def)
  have 1: "bop (\<lambda>x p. x - p) [[1, 2]] (prev_err p_ctrl) = Inr [[1, 2]]"
    by (simp add: p_ctrl_def tmap_def)
  have 2: "bop (\<lambda>x p. x - p) [[3, 5]] (prev_err (p_ctrl\<lparr>prev_err := Tensor [[1, 2]]\<rparr>)) = Inr [[2, 3]]"
    by (simp add: same_shape_def tzip_def)
  have 3: "bop (\<lambda>x p. x - p) [[3, 5]]
      (prev_err (p_ctrl\<lparr>derivativeTs := 0.5, prev_err := Tensor [[1, 2]]\<rparr>)) = Inr [[2, 3]]"
    by (simp add: same_shape_def tzip_def)
  show ?thesis
    using rateError_contract [OF d 1]
      rateError_contract [of "p_ctrl\<lparr>prev_err := Tensor [[1, 2]]\<rparr>", OF _ 2]
      rateError_contract [of "p_ctrl\<lparr>derivativeTs := 0.5, prev_err := Tensor [[1, 2]]\<rparr>", OF _ 3]
    by (simp add: p_ctrl_def tmap_def)
qed

section \<open>Effects of a tick\<close>

lemma init_example: "init ex_agent 0.1 [1, 5, 0] ''standard'' = Inr ex_ctrl"
  by (simp add: init_eval time_constants_standard windup_def ex_agent_def ex_ctrl_def)

lemma process_force_example:
  "process_force ex_ctrl ex_agent =
     Inr (ex_ctrl\<lparr>accum_errs := Tensor [[0.1]], prev_err := Tensor [[1]]\<rparr>,
          ex_agent\<lparr>action_u := [[1.02]]\<rparr>)"
  by (simp add: ex_ctrl_def ex_agent_def eval_defs)

text \<open>
  Claim C1, amended. A call of \<open>process_force\<close> that returns changes the agent only in
  \<open>action.u\<close>, the field the desired velocity is read from and the force is written to, and
  the controller only in \<open>accum_errs\<close> and \<open>prev_err\<close>: the current velocity, the mass,
  \<open>max_f\<close> and \<open>f_range\<close> are unchanged, and so are the controller's gains, timestep and
  windup limit.
\<close>

theorem process_force_effects:
  assumes "process_force c a = Inr (c', a')"
  shows "a' = a\<lparr>action_u := action_u a'\<rparr>
       \<and> state_vel a' = state_vel a \<and> mass a' = mass a
       \<and> max_f a' = max_f a \<and> f_range a' = f_range a
       \<and> c' = c\<lparr>accum_errs := accum_errs c', prev_err := prev_err c'\<rparr>"
proof -
  have a: "a' = a\<lparr>action_u := action_u a'\<rparr>"
    and c: "c' = c\<lparr>accum_errs := accum_errs c', prev_err := prev_err c'\<rparr>"
    using assms by (rule process_force_frame)+
  have "state_vel a' = state_vel a \<and> mass a' = mass a \<and> max_f a' = max_f a \<and> f_range a' = f_range a"
    by (subst a, simp)+
  with a c show ?thesis by blast
qed

theorem process_force_effects_witness:
  "\<exists>c' a'. process_force ex_ctrl ex_agent = Inr (c', a')
     \<and> state_vel a' = [[0]] \<and> mass a' = 1 \<and> max_f a' = None \<and> f_range a' = None
     \<and> dt c' = 0.1 \<and> ctrl_gain c' = 1"
proof -
  obtain c' a' where pf: "process_force ex_ctrl ex_agent = Inr (c', a')"
    using process_force_example by blast
  note e = process_force_effects [OF pf]
  from e have "state_vel a' = [[0]] \<and> mass a' = 1 \<and> max_f a' = None \<and> f_range a' = None"
    by (simp add: ex_agent_def)
  moreover from e have "c' = ex_ctrl\<lparr>accum_errs := accum_errs c', prev_err := prev_err c'\<rparr>" by blast
  then have "dt c' = 0.1 \<and> ctrl_gain c' = 1" by (cases c') (simp add: ex_ctrl_def)
  ultimately show ?thesis using pf by blast
qed

text \<open>
  The desired velocity itself does not survive the call: in the example scenario the
  agent's \<open>action.u\<close> holds the velocity target 1 before the call and the force 1.02 after.
\<close>

theorem desired_velocity_overwritten:
  "\<exists>c' a'. process_force ex_ctrl ex_agent = Inr (c', a')
     \<and> action_u ex_agent = [[1]] \<and> action_u a' = [[1.02]]
     \<and> action_u a' \<noteq> action_u ex_agent"
  by (simp add: process_force_example) (simp add: ex_agent_def)

lemma rateError_accum_irrelevant:
  "rateError (c\<lparr>accum_errs := x\<rparr>) err = Inr (d, c2) \<Longrightarrow>
     rateError c err = Inr (d, c\<lparr>prev_err := Tensor err\<rparr>)"
  by (auto simp add: rateError_def bind_eq_Inr split: if_splits)

lemma same_shape_refl [simp]: "same_shape t t"
  by (simp add: same_shape_def)

lemma same_shape_sym: "same_shape s t \<Longrightarrow> same_shape t s"
  by (simp add: same_shape_def)

lemma same_shape_trans: "same_shape s t \<Longrightarrow> same_shape t r \<Longrightarrow> same_shape s r"
  by (simp add: same_shape_def)

lemma same_shape_tmap [simp]: "same_shape (tmap f t) t"
  by (simp add: same_shape_def tmap_def comp_def)

lemma same_shape_tzip: "same_shape s t \<Longrightarrow> same_shape (tzip f s t) s"
proof (induction s arbitrary: t)
  case Nil
  then show ?case by (simp add: same_shape_def tzip_def)
next
  case (Cons row s)
  then obtain row' t' where t: "t = row' # t'" and l: "length row = length row'"
    and sh: "same_shape s t'"
    by (cases t) (auto simp add: same_shape_def)
  have "same_shape (tzip f s t') s" using sh by (rule Cons.IH)
  then show ?case using l by (simp add: t same_shape_def tzip_def)
qed

lemma fits_same_shape: "fits v t \<Longrightarrow> same_shape s t \<Longrightarrow> fits v s"
  by (cases v) (auto intro: same_shape_trans)

lemma bop_total:
  assumes "fits v t"
  obtains r where "bop f t v = Inr r" "same_shape r t"
  using assms by (cases v) (auto simp add: same_shape_tzip)

lemma integralError_total:
  assumes "use_integrator c \<longrightarrow>
            fits (accum_errs c) err \<and> integralTs c \<noteq> 0 \<and> integrator_windup_cutoff c \<noteq> None"
  obtains i ci where "integralError c err = Inr (i, ci)" "fits i err"
proof (cases "use_integrator c")
  case False
  then have "integralError c err = Inr (Scalar 0, c)" by (simp add: integralError_def)
  then show ?thesis by (rule that) simp
next
  case True
  with assms obtain w where f: "fits (accum_errs c) err" and nz: "integralTs c \<noteq> 0"
    and w: "integrator_windup_cutoff c = Some w"
    by auto
  have "fits (accum_errs c) (tmap (\<lambda>x. dt c * x) err)"
    using f by (rule fits_same_shape) simp
  then obtain acc where acc: "bop (\<lambda>x acc. acc + x) (tmap (\<lambda>x. dt c * x) err) (accum_errs c) = Inr acc"
    and sh: "same_shape acc (tmap (\<lambda>x. dt c * x) err)"
    by (rule bop_total)
  have sh': "same_shape acc err" using sh by (rule same_shape_trans) simp
  have "\<exists>i ci. integralError c err = Inr (i, ci) \<and> (\<exists>t. i = Tensor t \<and> same_shape t acc)"
    using True acc w nz
    by (simp add: integralError_def Let_def clamp_tensor_def same_shape_def tmap_def comp_def)
  then obtain t ci where ie: "integralError c err = Inr (Tensor t, ci)" and sht: "same_shape t acc"
    by blast
  have "fits (Tensor t) err"
    using sht sh' by (simp add: same_shape_def)
  with ie show ?thesis by (rule that)
qed

lemma rateError_total:
  assumes "fits (prev_err c) err" and "dt c \<noteq> 0"
  obtains d cd where "rateError c err = Inr (d, cd)" "fits d err"
proof -
  from assms(1) obtain r where r: "bop (\<lambda>x p. x - p) err (prev_err c) = Inr r"
    and sh: "same_shape r err"
    by (rule bop_total)
  let ?d = "tmap (\<lambda>x. derivativeTs c * x / dt c) r"
  have "rateError c err = Inr (Tensor ?d, c\<lparr>prev_err := Tensor err\<rparr>)"
    using r assms(2) by (simp add: rateError_def)
  moreover have "fits (Tensor ?d) err" using sh by (simp add: same_shape_def tmap_def comp_def)
  ultimately show ?thesis by (rule that)
qed

lemma process_force_total:
  assumes "ready c a"
  obtains c' a' where "process_force c a = Inr (c', a')"
proof -
  from assms have uv: "same_shape (action_u a) (state_vel a)"
    and fp: "fits (prev_err c) (action_u a)" and nz: "dt c \<noteq> 0"
    and ui: "use_integrator c \<longrightarrow>
            fits (accum_errs c) (action_u a) \<and> integralTs c \<noteq> 0
            \<and> integrator_windup_cutoff c \<noteq> None"
    by (simp_all add: ready_def)
  from uv have "fits (Tensor (state_vel a)) (action_u a)" by simp
  then obtain err where e: "bop (\<lambda>x y. x - y) (action_u a) (Tensor (state_vel a)) = Inr err"
    and she: "same_shape err (action_u a)"
    by (rule bop_total)
  have "use_integrator c \<longrightarrow>
            fits (accum_errs c) err \<and> integralTs c \<noteq> 0 \<and> integrator_windup_cutoff c \<noteq> None"
    using ui she by (auto intro: fits_same_shape)
  then obtain i c1 where ie: "integralError c err = Inr (i, c1)" and fi: "fits i err"
    by (rule integralError_total)
  from fi obtain s1 where s1: "bop (\<lambda>x y. x + y) err i = Inr s1" and sh1: "same_shape s1 err"
    by (rule bop_total)
  have c1: "c1 = c\<lparr>accum_errs := accum_errs c1\<rparr>" using ie by (rule integralError_frame)
  have "prev_err c1 = prev_err c" "dt c1 = dt c" by (subst c1, simp)+
  then have "fits (prev_err c1) err" "dt c1 \<noteq> 0"
    using fp she nz by (auto intro: fits_same_shape)
  then obtain d c2 where re: "rateError c1 err = Inr (d, c2)" and fd: "fits d err"
    by (rule rateError_total)
  from fd sh1 have "fits d s1" by (rule fits_same_shape)
  then obtain s2 where s2: "bop (\<lambda>x y. x + y) s1 d = Inr s2"
    by (rule bop_total)
  show ?thesis
    by (rule that) (unfold process_force_def Let_def e, simp add: ie s1 re s2)
qed

lemma init_ready:
  assumes "init a0 tstep ps form = Inr c" and "tstep \<noteq> 0"
    and "same_shape (action_u a) (state_vel a)"
  shows "ready c a"
proof -
  from assms(1) have w: "windup a0 tstep (ps ! 0) (integralTs c)
      = Inr (use_integrator c, integrator_windup_cutoff c)"
    and d: "dt c = tstep" and s: "accum_errs c = Scalar 0" "prev_err c = Scalar 0"
    by (elim init_fields, simp)+
  have "use_integrator c \<longrightarrow> integralTs c \<noteq> 0 \<and> integrator_windup_cutoff c \<noteq> None"
    using w by (auto simp add: windup_def Let_def bind_eq_Inr split: if_splits) metis
  then show ?thesis using d s assms(2,3) by (simp add: ready_def)
qed

lemma integralError_fits:
  assumes "integralError c err = Inr (i, c')" and "use_integrator c"
  shows "fits (accum_errs c') err"
proof -
  from assms obtain acc w where
    acc: "bop (\<lambda>x acc. acc + x) (tmap (\<lambda>x. dt c * x) err) (accum_errs c) = Inr acc"
    and c': "accum_errs c' = Tensor (clamp_tensor acc w)"
    by (auto simp add: integralError_def bind_eq_Inr Let_def split: option.splits)
  have "same_shape acc (tmap (\<lambda>x. dt c * x) err)"
    using acc by (cases "accum_errs c") (auto simp add: same_shape_tzip split: if_splits)
  then have "same_shape acc err" by (rule same_shape_trans) simp
  then have "same_shape err (clamp_tensor acc w)"
    by (simp add: same_shape_def clamp_tensor_def tmap_def comp_def)
  then show ?thesis by (simp add: c')
qed

lemma process_force_ready:
  assumes r: "ready c a" and pf: "process_force c a = Inr (c', a')"
    and b: "same_shape (action_u b) (action_u a)" "same_shape (action_u b) (state_vel b)"
  shows "ready c' b"
proof -
  from pf obtain err i c1 s1 d s2 where
    e: "bop (\<lambda>x y. x - y) (action_u a) (Tensor (state_vel a)) = Inr err"
    and ie: "integralError c err = Inr (i, c1)"
    and re: "rateError c1 err = Inr (d, c')"
    by (rule process_force_cases)
  have she: "same_shape err (action_u a)"
    using e by (auto simp add: same_shape_tzip split: if_splits)
  have c1: "c1 = c\<lparr>accum_errs := accum_errs c1\<rparr>" using ie by (rule integralError_frame)
  have c': "c' = c1\<lparr>prev_err := Tensor err\<rparr>" using re by (rule rateError_frame)
  have fields: "dt c' = dt c" "use_integrator c' = use_integrator c"
    "integralTs c' = integralTs c" "integrator_windup_cutoff c' = integrator_windup_cutoff c"
    "prev_err c' = Tensor err" "accum_errs c' = accum_errs c1"
    by (subst c', subst c1, simp)+
  have bu: "same_shape (action_u b) err"
    using b(1) she by (auto intro: same_shape_trans same_shape_sym)
  have "fits (accum_errs c') (action_u b)" if "use_integrator c"
    using integralError_fits [OF ie that] bu fields(6) by (auto intro: fits_same_shape)
  then show ?thesis
    using r b(2) bu fields by (simp add: ready_def)
qed

lemma process_force_returns_law:
  assumes "process_force c a = Inr (c', a')"
  shows "\<exists>err i ci d cd s1 total.
           bop (\<lambda>x y. x - y) (action_u a) (Tensor (state_vel a)) = Inr err
         \<and> integralError c err = Inr (i, ci)
         \<and> rateError c err = Inr (d, cd)
         \<and> bop (\<lambda>x y. x + y) err i = Inr s1
         \<and> bop (\<lambda>x y. x + y) s1 d = Inr total
         \<and> action_u a' = spec_limits a (tmap (\<lambda>x. mass a * ctrl_gain c * x) total)"
proof -
  from assms obtain err i c1 s1 d s2 where
    e: "bop (\<lambda>x y. x - y) (action_u a) (Tensor (state_vel a)) = Inr err"
    and ie: "integralError c err = Inr (i, c1)"
    and s1: "bop (\<lambda>x y. x + y) err i = Inr s1"
    and re: "rateError c1 err = Inr (d, c')"
    and s2: "bop (\<lambda>x y. x + y) s1 d = Inr s2"
    and a': "a' = a\<lparr>action_u :=
        (let u1 = tmap (\<lambda>x. x * mass a) (tmap (\<lambda>x. ctrl_gain c * x) s2);
             u2 = (case max_f a of None \<Rightarrow> u1 | Some m \<Rightarrow> clamp_with_norm u1 m)
         in case f_range a of None \<Rightarrow> u2 | Some r \<Rightarrow> tmap (torch_clamp (- r) r) u2)\<rparr>"
    by (rule process_force_cases)
  have "c1 = c\<lparr>accum_errs := accum_errs c1\<rparr>" using ie by (rule integralError_frame)
  with re have "rateError (c\<lparr>accum_errs := accum_errs c1\<rparr>) err = Inr (d, c')" by simp
  then have re': "rateError c err = Inr (d, c\<lparr>prev_err := Tensor err\<rparr>)"
    by (rule rateError_accum_irrelevant)
  have scale: "tmap (\<lambda>x. x * mass a) (tmap (\<lambda>x. ctrl_gain c * x) s2)
      = tmap (\<lambda>x. mass a * ctrl_gain c * x) s2"
    by (simp add: tmap_tmap mult.commute mult.left_commute)
  have "action_u a' = spec_limits a (tmap (\<lambda>x. mass a * ctrl_gain c * x) s2)"
    by (subst a') (simp add: spec_limits_def clamp_tensor_def Let_def scale
        split: option.splits)
  with e ie re' s1 s2 show ?thesis by blast
qed

text \<open>
  Claim C2. Under the contract \<open>ready\<close>, which holds for every constructed controller
  with a nonzero timestep and is kept by every tick on inputs of one shape
  (\<open>init_ready\<close>, \<open>process_force_ready\<close>), a call of \<open>process_force\<close> returns, and the
  force it writes is \<open>mass * kP * (err + integralError err + rateError err)\<close> with
  \<open>err = desired velocity - current velocity\<close>, both terms computed from the state before
  the call, clamped by norm to \<open>max_f\<close> when present and then per component to
  \<open>[-f_range, f_range]\<close> when present.
\<close>

theorem process_force_law:
  assumes "ready c a"
  shows "\<exists>c' a' err i ci d cd s1 total.
           process_force c a = Inr (c', a')
         \<and> err = tzip (\<lambda>x y. x - y) (action_u a) (state_vel a)
         \<and> integralError c err = Inr (i, ci)
         \<and> rateError c err = Inr (d, cd)
         \<and> bop (\<lambda>x y. x + y) err i = Inr s1
         \<and> bop (\<lambda>x y. x + y) s1 d = Inr total
         \<and> action_u a' = spec_limits a (tmap (\<lambda>x. mass a * ctrl_gain c * x) total)"
proof -
  from assms obtain c' a' where pf: "process_force c a = Inr (c', a')"
    by (rule process_force_total)
  from process_force_returns_law [OF pf] obtain err i ci d cd s1 total where
    e: "bop (\<lambda>x y. x - y) (action_u a) (Tensor (state_vel a)) = Inr err"
    and rest: "integralError c err = Inr (i, ci)" "rateError c err = Inr (d, cd)"
      "bop (\<lambda>x y. x + y) err i = Inr s1" "bop (\<lambda>x y. x + y) s1 d = Inr total"
      "action_u a' = spec_limits a (tmap (\<lambda>x. mass a * ctrl_gain c * x) total)"
    by blast
  from e have "err = tzip (\<lambda>x y. x - y) (action_u a) (state_vel a)"
    by (auto split: if_splits)
  with pf rest show ?thesis by blast
qed

lemma sqrt_3600: "sqrt 3600 = 60"
  using real_sqrt_abs [of 60] by simp

lemma process_force_pid_example:
  "process_force pid_ctrl pid_agent =
     Inr (pid_ctrl\<lparr>accum_errs := Tensor [[8, 4]], prev_err := Tensor [[8, 8]]\<rparr>,
          pid_agent\<lparr>action_u := [[18, 20]]\<rparr>)"
  by (simp add: pid_ctrl_def pid_agent_def eval_defs sqrt_3600)

text \<open>
  The order of the two clamps matters: on the force \<open>[36, 48]\<close> with \<open>max_f = 30\<close> and
  \<open>f_range = 20\<close> the norm clamp followed by the range clamp gives \<open>[18, 20]\<close>, the
  reverse order would give \<open>[20, 20]\<close>.
\<close>

lemma range_then_norm_example:
  "clamp_with_norm (clamp_tensor [[36, 48]] 20) 30 = [[20, 20]]"
proof -
  have "sqrt 800 \<le> sqrt 900" by (rule real_sqrt_le_mono) simp
  moreover have "sqrt 900 = 30" using real_sqrt_abs [of 30] by simp
  ultimately have "\<not> 30 < sqrt 800" by simp
  then show ?thesis
    by (simp add: clamp_with_norm_def clamp_tensor_def tmap_def torch_clamp_def vector_norm_def)
qed

theorem process_force_law_witness:
  "ready pid_ctrl pid_agent
   \<and> (\<exists>c' a'. process_force pid_ctrl pid_agent = Inr (c', a')
        \<and> action_u a' = spec_limits pid_agent (tmap (\<lambda>x. 3 * 2 * x) [[6, 8]])
        \<and> action_u a' = [[18, 20]]
        \<and> action_u a' \<noteq> clamp_with_norm (clamp_tensor [[36, 48]] 20) 30)"
proof -
  have r: "ready pid_ctrl pid_agent"
    by (simp add: ready_def pid_ctrl_def pid_agent_def same_shape_def)
  from process_force_law [OF r] obtain c' a' err i ci d cd s1 total where
    pf: "process_force pid_ctrl pid_agent = Inr (c', a')"
    and e: "err = tzip (\<lambda>x y. x - y) (action_u pid_agent) (state_vel pid_agent)"
    and ie: "integralError pid_ctrl err = Inr (i, ci)"
    and re: "rateError pid_ctrl err = Inr (d, cd)"
    and s1: "bop (\<lambda>x y. x + y) err i = Inr s1"
    and s2: "bop (\<lambda>x y. x + y) s1 d = Inr total"
    and law: "action_u a' = spec_limits pid_agent (tmap (\<lambda>x. mass pid_agent * ctrl_gain pid_ctrl * x) total)"
    by blast
  have err: "err = [[8, 8]]" by (simp add: e pid_agent_def tzip_def)
  have "i = Tensor [[2, 1]]" using ie by (simp add: err pid_ctrl_def eval_defs)
  moreover have "d = Tensor [[- 4, - 1]]" using re by (simp add: err pid_ctrl_def eval_defs)
  ultimately have "total = [[6, 8]]" using s1 s2 by (auto simp add: err eval_defs)
  with law have 1: "action_u a' = spec_limits pid_agent (tmap (\<lambda>x. 3 * 2 * x) [[6, 8]])"
    by (simp add: pid_ctrl_def pid_agent_def)
  have 2: "action_u a' = [[18, 20]]" using pf unfolding process_force_pid_example by auto
  have 3: "action_u a' \<noteq> clamp_with_norm (clamp_tensor [[36, 48]] 20) 30"
    unfolding 2 range_then_norm_example by simp
  from r pf 1 2 3 show ?thesis by blast
qed

section \<open>The integrator\<close>

lemma torch_clamp_abs: "0 \<le> w \<Longrightarrow> \<bar>torch_clamp (- w) w x\<bar> \<le> w"
  by (auto simp add: torch_clamp_def min_def max_def)

lemma clamp_tensor_bounded: "0 \<le> w \<Longrightarrow> bounded_by w (Tensor (clamp_tensor t w))"
  by (simp add: clamp_tensor_def tmap_def list_all_iff torch_clamp_abs)

lemma integralError_bounded:
  assumes "use_integrator c" and "integrator_windup_cutoff c = Some w" and "0 \<le> w"
    and "integralError c err = Inr (i, c')"
  shows "bounded_by w (accum_errs c')"
proof -
  from assms(1,2,4) obtain acc where "accum_errs c' = Tensor (clamp_tensor acc w)"
    by (auto simp add: integralError_def bind_eq_Inr Let_def split: if_splits)
  then show ?thesis using clamp_tensor_bounded [OF assms(3), of acc] by simp
qed

lemma integralError_unused:
  "\<not> use_integrator c \<Longrightarrow> integralError c err = Inr (Scalar 0, c)"
  by (simp add: integralError_def)

lemma process_force_accum:
  assumes "process_force c a = Inr (c', a')"
  obtains err i c1 where "integralError c err = Inr (i, c1)" "accum_errs c' = accum_errs c1"
proof -
  from assms obtain err i c1 d where
    ie: "integralError c err = Inr (i, c1)" and re: "rateError c1 err = Inr (d, c')"
    by (rule process_force_cases)
  have "c' = c1\<lparr>prev_err := Tensor err\<rparr>" using re by (rule rateError_frame)
  then have "accum_errs c' = accum_errs c1" by (cases c1) simp
  with ie show ?thesis by (rule that)
qed

lemma calls_bounded:
  assumes "use_integrator c" and "integrator_windup_cutoff c = Some w" and "0 \<le> w"
  shows "calls c cs = Inr c' \<Longrightarrow> bounded_by w (accum_errs c) \<Longrightarrow> bounded_by w (accum_errs c')"
  using assms(1,2)
proof (induction cs arbitrary: c)
  case Nil
  then show ?case by simp
next
  case (Cons k cs)
  show ?case
  proof (cases k)
    case Reset
    with Cons.prems(1) have k: "calls (reset c) cs = Inr c'" by simp
    show ?thesis
      using Cons.IH [OF k] Cons.prems(3,4) assms(3) by (simp add: reset_def)
  next
    case (ProcessForce a)
    with Cons.prems(1) obtain c1 a1 where pf: "process_force c a = Inr (c1, a1)"
      and rest: "calls c1 cs = Inr c'"
      by (auto simp add: bind_eq_Inr)
    from pf obtain err i c2 where ie: "integralError c err = Inr (i, c2)"
      and acc: "accum_errs c1 = accum_errs c2"
      by (rule process_force_accum)
    have b: "bounded_by w (accum_errs c1)"
      using integralError_bounded [OF Cons.prems(3,4) assms(3) ie] acc by simp
    have fr: "c1 = c\<lparr>accum_errs := accum_errs c1, prev_err := prev_err c1\<rparr>"
      using pf by (rule process_force_frame)
    have "use_integrator c1" "integrator_windup_cutoff c1 = Some w"
      using Cons.prems(3,4) by (subst fr, simp)+
    then show ?thesis using Cons.IH [OF rest b] by simp
  qed
qed

lemma calls_unused:
  "calls c cs = Inr c' \<Longrightarrow> \<not> use_integrator c \<Longrightarrow> accum_errs c = Scalar 0 \<Longrightarrow>
     accum_errs c' = Scalar 0"
proof (induction cs arbitrary: c)
  case Nil
  then show ?case by simp
next
  case (Cons k cs)
  show ?case
  proof (cases k)
    case Reset
    with Cons.prems(1) have k: "calls (reset c) cs = Inr c'" by simp
    show ?thesis
      using Cons.IH [OF k] Cons.prems(2) by (simp add: reset_def)
  next
    case (ProcessForce a)
    with Cons.prems(1) obtain c1 a1 where pf: "process_force c a = Inr (c1, a1)"
      and rest: "calls c1 cs = Inr c'"
      by (auto simp add: bind_eq_Inr)
    from pf obtain err i c2 where ie: "integralError c err = Inr (i, c2)"
      and acc: "accum_errs c1 = accum_errs c2"
      by (rule process_force_accum)
    have "c2 = c" using ie Cons.prems(2) by (simp add: integralError_unused)
    with acc Cons.prems(3) have zero: "accum_errs c1 = Scalar 0" by simp
    have fr: "c1 = c\<lparr>accum_errs := accum_errs c1, prev_err := prev_err c1\<rparr>"
      using pf by (rule process_force_frame)
    have "\<not> use_integrator c1" using Cons.prems(2) by (subst fr) simp
    then show ?thesis using Cons.IH [OF rest] zero by simp
  qed
qed

text \<open>
  Claim C3, amended. With the integrator in use and a windup limit \<open>w \<ge> 0\<close>, every
  entry of \<open>accum_errs\<close> is at most \<open>w\<close> in magnitude after each \<open>integralError\<close> call, and
  after every sequence of resets and \<open>process_force\<close> calls on a constructed controller.
  Without the integrator \<open>integralError\<close> returns zero and leaves the controller as it
  is, and \<open>accum_errs\<close> of a constructed controller stays the scalar zero.
\<close>

theorem windup_bound:
  "(use_integrator c \<and> integrator_windup_cutoff c = Some w \<and> 0 \<le> w
      \<and> integralError c err = Inr (i, c') \<longrightarrow> bounded_by w (accum_errs c'))
   \<and> (init a tstep ctrl_params pid_form = Inr c0 \<and> use_integrator c0
      \<and> integrator_windup_cutoff c0 = Some w \<and> 0 \<le> w \<and> calls c0 cs = Inr c1
      \<longrightarrow> bounded_by w (accum_errs c1))
   \<and> (\<not> use_integrator c \<longrightarrow> integralError c err = Inr (Scalar 0, c))
   \<and> (init a tstep ctrl_params pid_form = Inr c0 \<and> \<not> use_integrator c0 \<and> calls c0 cs = Inr c1
      \<longrightarrow> accum_errs c1 = Scalar 0)"
proof -
  have 1: "bounded_by w (accum_errs c')"
    if "use_integrator c \<and> integrator_windup_cutoff c = Some w \<and> 0 \<le> w
      \<and> integralError c err = Inr (i, c')"
    using that integralError_bounded by blast
  have start: "accum_errs c0 = Scalar 0" if "init a tstep ctrl_params pid_form = Inr c0"
    using init_start [OF that] by simp
  have 2: "bounded_by w (accum_errs c1)"
    if h: "init a tstep ctrl_params pid_form = Inr c0 \<and> use_integrator c0
      \<and> integrator_windup_cutoff c0 = Some w \<and> 0 \<le> w \<and> calls c0 cs = Inr c1"
  proof -
    have "bounded_by w (accum_errs c0)" using start h by simp
    with h show ?thesis using calls_bounded by blast
  qed
  have 3: "integralError c err = Inr (Scalar 0, c)" if "\<not> use_integrator c"
    using that by (rule integralError_unused)
  have 4: "accum_errs c1 = Scalar 0"
    if h: "init a tstep ctrl_params pid_form = Inr c0 \<and> \<not> use_integrator c0 \<and> calls c0 cs = Inr c1"
    using h start calls_unused by blast
  from 1 2 3 4 show ?thesis by blast
qed

text \<open>
  A negative integral time constant gives a negative windup limit, which no magnitude is
  below: the bound of claim C3 fails for the controller built from standard form
  \<open>[1, -1, 0]\<close>.
\<close>

theorem windup_bound_negative_limit:
  "init ex_agent 1 [1, - 1, 0] ''standard'' = Inr neg_ctrl
   \<and> use_integrator neg_ctrl \<and> integrator_windup_cutoff neg_ctrl = Some (- 1)
   \<and> integralError neg_ctrl [[1]] = Inr (Tensor [[1]], neg_ctrl\<lparr>accum_errs := Tensor [[- 1]]\<rparr>)
   \<and> \<not> bounded_by (- 1) (accum_errs (neg_ctrl\<lparr>accum_errs := Tensor [[- 1]]\<rparr>))"
  by (simp add: init_eval time_constants_standard windup_def ex_agent_def neg_ctrl_def eval_defs)

lemma init_p_example: "init ex_agent 0.1 [1, 0, 0] ''standard'' = Inr p_ctrl"
  by (simp add: init_eval time_constants_standard windup_def p_ctrl_def)

lemma calls_saturating_example:
  "calls ex_ctrl [ProcessForce (ex_agent\<lparr>action_u := [[1000]]\<rparr>), ProcessForce ex_agent] =
     Inr (ex_ctrl\<lparr>accum_errs := Tensor [[50]], prev_err := Tensor [[1]]\<rparr>)"
  by (simp add: ex_ctrl_def ex_agent_def eval_defs)

lemma calls_p_example:
  "calls p_ctrl [ProcessForce ex_agent, Reset, ProcessForce ex_agent] =
     Inr (p_ctrl\<lparr>prev_err := Tensor [[1]]\<rparr>)"
  by (simp add: p_ctrl_def ex_agent_def eval_defs reset_def)

theorem windup_bound_witness:
  "(\<exists>c. calls ex_ctrl [ProcessForce (ex_agent\<lparr>action_u := [[1000]]\<rparr>), ProcessForce ex_agent] = Inr c
        \<and> accum_errs c = Tensor [[50]] \<and> bounded_by 50 (accum_errs c))
   \<and> (\<exists>c. calls p_ctrl [ProcessForce ex_agent, Reset, ProcessForce ex_agent] = Inr c
        \<and> accum_errs c = Scalar 0)"
proof -
  have u: "use_integrator ex_ctrl" "integrator_windup_cutoff ex_ctrl = Some 50"
    "\<not> use_integrator p_ctrl"
    by (simp_all add: ex_ctrl_def p_ctrl_def)
  have z: "(0::real) \<le> 50" by simp
  have "bounded_by 50 (accum_errs (ex_ctrl\<lparr>accum_errs := Tensor [[50]], prev_err := Tensor [[1]]\<rparr>))"
    using windup_bound [of ex_ctrl 50 "[[1]]" _ _ ex_agent "0.1" "[1, 5, 0]" "''standard''"
        ex_ctrl "[ProcessForce (ex_agent\<lparr>action_u := [[1000]]\<rparr>), ProcessForce ex_agent]"
        "ex_ctrl\<lparr>accum_errs := Tensor [[50]], prev_err := Tensor [[1]]\<rparr>"]
      init_example u z calls_saturating_example
    by blast
  moreover have "accum_errs (p_ctrl\<lparr>prev_err := Tensor [[1]]\<rparr>) = Scalar 0"
    using windup_bound [of p_ctrl _ "[[1]]" _ _ ex_agent "0.1" "[1, 0, 0]" "''standard''"
        p_ctrl "[ProcessForce ex_agent, Reset, ProcessForce ex_agent]"
        "p_ctrl\<lparr>prev_err := Tensor [[1]]\<rparr>"]
      init_p_example u calls_p_example
    by blast
  ultimately show ?thesis
    using calls_saturating_example calls_p_example by simp
qed

section \<open>Reset\<close>

text \<open>
  Claim C9. \<open>reset\<close> sets \<open>accum_errs\<close> and \<open>prev_err\<close> to zero and leaves every other
  field of the controller as it is (the agent is no argument of it); a second reset
  changes nothing; and after any sequence of calls on a constructed controller a reset
  returns the controller as it was constructed, so its integral term, its derivative term
  and its next \<open>process_force\<close> are those of the fresh controller.
\<close>

theorem reset_contract:
  "accum_errs (reset c) = Scalar 0 \<and> prev_err (reset c) = Scalar 0
   \<and> dt (reset c) = dt c \<and> ctrl_gain (reset c) = ctrl_gain c
   \<and> integralTs (reset c) = integralTs c \<and> derivativeTs (reset c) = derivativeTs c
   \<and> use_integrator (reset c) = use_integrator c
   \<and> integrator_windup_cutoff (reset c) = integrator_windup_cutoff c
   \<and> reset (reset c) = reset c
   \<and> (init a tstep ctrl_params pid_form = Inr c0 \<and> calls c0 cs = Inr c \<longrightarrow>
        reset c = c0
        \<and> (\<forall>err. integralError (reset c) err = integralError c0 err
               \<and> rateError (reset c) err = rateError c0 err)
        \<and> (\<forall>ag. process_force (reset c) ag = process_force c0 ag))"
proof -
  have "reset c = c0" if i: "init a tstep ctrl_params pid_form = Inr c0" and k: "calls c0 cs = Inr c"
  proof -
    have "c = c0\<lparr>accum_errs := accum_errs c, prev_err := prev_err c\<rparr>" using k by (rule calls_frame)
    moreover have "accum_errs c0 = Scalar 0 \<and> prev_err c0 = Scalar 0" using i by (rule init_start)
    ultimately show ?thesis by (cases c, cases c0) (simp add: reset_def)
  qed
  then show ?thesis by (auto simp add: reset_def)
qed

theorem reset_contract_witness:
  "calls ex_ctrl [ProcessForce (ex_agent\<lparr>action_u := [[1000]]\<rparr>), ProcessForce ex_agent]
     = Inr (ex_ctrl\<lparr>accum_errs := Tensor [[50]], prev_err := Tensor [[1]]\<rparr>)
   \<and> reset (ex_ctrl\<lparr>accum_errs := Tensor [[50]], prev_err := Tensor [[1]]\<rparr>) = ex_ctrl
   \<and> process_force (reset (ex_ctrl\<lparr>accum_errs := Tensor [[50]], prev_err := Tensor [[1]]\<rparr>)) ex_agent
     = process_force ex_ctrl ex_agent"
  using reset_contract [of "ex_ctrl\<lparr>accum_errs := Tensor [[50]], prev_err := Tensor [[1]]\<rparr>"
      ex_agent "0.1" "[1, 5, 0]" "''standard''" ex_ctrl
      "[ProcessForce (ex_agent\<lparr>action_u := [[1000]]\<rparr>), ProcessForce ex_agent]"]
    init_example calls_saturating_example
  by simp

section \<open>Batch entries\<close>

lemma length_tmap [simp]: "length (tmap f t) = length t"
  by (simp add: tmap_def)

lemma length_tzip: "same_shape s t \<Longrightarrow> length (tzip f s t) = length s"
  by (simp add: tzip_def same_shape_length)

lemma entry_tmap: "i < length t \<Longrightarrow> entry i (tmap f t) = tmap f (entry i t)"
  by (simp add: entry_def tmap_def)

lemma entry_tzip:
  "i < length s \<Longrightarrow> i < length t \<Longrightarrow> entry i (tzip f s t) = tzip f (entry i s) (entry i t)"
  by (simp add: entry_def tzip_def)

lemma same_shape_entry:
  assumes "same_shape s t" and "i < length s"
  shows "same_shape (entry i s) (entry i t)"
proof -
  have "i < length t" using assms by (simp add: same_shape_length)
  moreover have "map length s ! i = map length t ! i" using assms(1) by (simp add: same_shape_def)
  ultimately have "length (s ! i) = length (t ! i)" using assms(2) by simp
  then show ?thesis by (simp add: same_shape_def entry_def)
qed

lemma bop_entry:
  assumes "bop f t v = Inr r" and "i < length t"
  shows "bop f (entry i t) (val_entry i v) = Inr (entry i r)" and "length r = length t"
proof -
  show "bop f (entry i t) (val_entry i v) = Inr (entry i r)"
  proof (cases v)
    case (Scalar s)
    with assms show ?thesis by (auto simp add: entry_tmap)
  next
    case (Tensor q)
    with assms have sh: "same_shape t q" and r: "r = tzip f t q"
      by (auto split: if_splits)
    have "i < length q" using sh assms(2) by (simp add: same_shape_length)
    then show ?thesis
      using Tensor sh r assms(2) by (simp add: same_shape_entry entry_tzip)
  qed
  show "length r = length t"
    using assms(1) by (cases v) (auto simp add: length_tzip split: if_splits)
qed

lemma entry_clamp_tensor:
  "i < length t \<Longrightarrow> entry i (clamp_tensor t w) = clamp_tensor (entry i t) w"
  by (simp add: clamp_tensor_def entry_tmap)

lemma entry_clamp_with_norm:
  "i < length t \<Longrightarrow> entry i (clamp_with_norm t m) = clamp_with_norm (entry i t) m"
  by (simp add: clamp_with_norm_def entry_def)

lemma length_clamp_with_norm [simp]: "length (clamp_with_norm t m) = length t"
  by (simp add: clamp_with_norm_def)

lemma length_clamp_tensor [simp]: "length (clamp_tensor t w) = length t"
  by (simp add: clamp_tensor_def)

lemma ctrl_entry_fields [simp]:
  "dt (ctrl_entry i c) = dt c" "ctrl_gain (ctrl_entry i c) = ctrl_gain c"
  "integralTs (ctrl_entry i c) = integralTs c" "derivativeTs (ctrl_entry i c) = derivativeTs c"
  "use_integrator (ctrl_entry i c) = use_integrator c"
  "integrator_windup_cutoff (ctrl_entry i c) = integrator_windup_cutoff c"
  "accum_errs (ctrl_entry i c) = val_entry i (accum_errs c)"
  "prev_err (ctrl_entry i c) = val_entry i (prev_err c)"
  by (simp_all add: ctrl_entry_def)

lemma integralError_entry:
  assumes "integralError c err = Inr (iv, c')" and "i < length err"
  shows "integralError (ctrl_entry i c) (entry i err) = Inr (val_entry i iv, ctrl_entry i c')"
proof (cases "use_integrator c")
  case False
  with assms show ?thesis by (auto simp add: integralError_def)
next
  case True
  with assms(1) obtain acc w k where
    acc: "bop (\<lambda>x acc. acc + x) (tmap (\<lambda>x. dt c * x) err) (accum_errs c) = Inr acc"
    and w: "integrator_windup_cutoff c = Some w"
    and k: "py_div 1.0 (integralTs c) = Inr k"
    and iv: "iv = Tensor (tmap (\<lambda>x. k * x) (clamp_tensor acc w))"
    and c': "c' = c\<lparr>accum_errs := Tensor (clamp_tensor acc w)\<rparr>"
    by (auto simp add: integralError_def bind_eq_Inr Let_def split: option.splits)
  have l: "i < length (tmap (\<lambda>x. dt c * x) err)" using assms(2) by simp
  have acc_i: "bop (\<lambda>x acc. acc + x) (tmap (\<lambda>x. dt c * x) (entry i err)) (val_entry i (accum_errs c))
      = Inr (entry i acc)"
    using bop_entry(1) [OF acc l] assms(2) by (simp add: entry_tmap)
  have la: "i < length acc" using bop_entry(2) [OF acc l] assms(2) by simp
  have "ctrl_entry i c' = (ctrl_entry i c)\<lparr>accum_errs := Tensor (clamp_tensor (entry i acc) w)\<rparr>"
    using la by (simp add: c' ctrl_entry_def entry_clamp_tensor)
  moreover have "val_entry i iv = Tensor (tmap (\<lambda>x. k * x) (clamp_tensor (entry i acc) w))"
    using la by (simp add: iv entry_tmap entry_clamp_tensor)
  ultimately show ?thesis
    using True acc_i w k by (simp add: integralError_def Let_def)
qed

lemma rateError_entry:
  assumes "rateError c err = Inr (dv, c')" and "i < length err"
  shows "rateError (ctrl_entry i c) (entry i err) = Inr (val_entry i dv, ctrl_entry i c')"
proof -
  from assms(1) obtain d where
    d: "bop (\<lambda>x p. x - p) err (prev_err c) = Inr d" and nz: "dt c \<noteq> 0"
    and dv: "dv = Tensor (tmap (\<lambda>x. derivativeTs c * x / dt c) d)"
    and c': "c' = c\<lparr>prev_err := Tensor err\<rparr>"
    by (auto simp add: rateError_def bind_eq_Inr split: if_splits)
  have d_i: "bop (\<lambda>x p. x - p) (entry i err) (val_entry i (prev_err c)) = Inr (entry i d)"
    using d assms(2) by (rule bop_entry(1))
  have ld: "i < length d" using bop_entry(2) [OF d assms(2)] assms(2) by simp
  have "ctrl_entry i c' = (ctrl_entry i c)\<lparr>prev_err := Tensor (entry i err)\<rparr>"
    by (simp add: c' ctrl_entry_def)
  moreover have "val_entry i dv = Tensor (tmap (\<lambda>x. derivativeTs c * x / dt c) (entry i d))"
    using ld by (simp add: dv entry_tmap)
  ultimately show ?thesis using d_i nz by (simp add: rateError_def)
qed

lemma process_force_entry:
  assumes pf: "process_force c (a\<lparr>action_u := u, state_vel := v\<rparr>) = Inr (c', a')"
    and i: "i < length u"
  shows "process_force (ctrl_entry i c) (a\<lparr>action_u := entry i u, state_vel := entry i v\<rparr>)
           = Inr (ctrl_entry i c', a'\<lparr>action_u := entry i (action_u a'), state_vel := entry i v\<rparr>)"
proof -
  let ?a = "a\<lparr>action_u := u, state_vel := v\<rparr>"
  let ?b = "a\<lparr>action_u := entry i u, state_vel := entry i v\<rparr>"
  from pf obtain err iv c1 s1 dv s2 where
    e: "bop (\<lambda>x y. x - y) (action_u ?a) (Tensor (state_vel ?a)) = Inr err"
    and ie: "integralError c err = Inr (iv, c1)"
    and s1: "bop (\<lambda>x y. x + y) err iv = Inr s1"
    and re: "rateError c1 err = Inr (dv, c')"
    and s2: "bop (\<lambda>x y. x + y) s1 dv = Inr s2"
    and a': "a' = ?a\<lparr>action_u :=
        (let u1 = tmap (\<lambda>x. x * mass ?a) (tmap (\<lambda>x. ctrl_gain c * x) s2);
             u2 = (case max_f ?a of None \<Rightarrow> u1 | Some m \<Rightarrow> clamp_with_norm u1 m)
         in case f_range ?a of None \<Rightarrow> u2 | Some r \<Rightarrow> tmap (torch_clamp (- r) r) u2)\<rparr>"
    by (rule process_force_cases)
  from e have e0: "bop (\<lambda>x y. x - y) u (Tensor v) = Inr err" by simp
  have e_i: "bop (\<lambda>x y. x - y) (entry i u) (Tensor (entry i v)) = Inr (entry i err)"
    using bop_entry(1) [OF e0 i] by simp
  have le: "i < length err" using bop_entry(2) [OF e0 i] i by simp
  have ie_i: "integralError (ctrl_entry i c) (entry i err) = Inr (val_entry i iv, ctrl_entry i c1)"
    using ie le by (rule integralError_entry)
  have s1_i: "bop (\<lambda>x y. x + y) (entry i err) (val_entry i iv) = Inr (entry i s1)"
    using s1 le by (rule bop_entry(1))
  have l1: "i < length s1" using bop_entry(2) [OF s1 le] le by simp
  have re_i: "rateError (ctrl_entry i c1) (entry i err) = Inr (val_entry i dv, ctrl_entry i c')"
    using re le by (rule rateError_entry)
  have s2_i: "bop (\<lambda>x y. x + y) (entry i s1) (val_entry i dv) = Inr (entry i s2)"
    using s2 l1 by (rule bop_entry(1))
  have l2: "i < length s2" using bop_entry(2) [OF s2 l1] l1 by simp
  define force where "force t =
        (let u1 = tmap (\<lambda>x. x * mass a) (tmap (\<lambda>x. ctrl_gain c * x) t);
             u2 = (case max_f a of None \<Rightarrow> u1 | Some m \<Rightarrow> clamp_with_norm u1 m)
         in case f_range a of None \<Rightarrow> u2 | Some r \<Rightarrow> tmap (torch_clamp (- r) r) u2)" for t
  have f_i: "entry i (force s2) = force (entry i s2)"
    using l2 by (simp add: force_def Let_def entry_tmap entry_clamp_with_norm split: option.splits)
  have a'_u: "action_u a' = force s2" by (subst a') (simp add: force_def)
  have a'_eq: "a' = a\<lparr>action_u := force s2, state_vel := v\<rparr>"
    by (subst a') (simp add: force_def)
  have "process_force (ctrl_entry i c) ?b = Inr (ctrl_entry i c', ?b\<lparr>action_u := force (entry i s2)\<rparr>)"
    unfolding process_force_def
    using e_i ie_i s1_i re_i s2_i by (simp add: force_def Let_def)
  moreover have "?b\<lparr>action_u := force (entry i s2)\<rparr>
      = a'\<lparr>action_u := entry i (action_u a'), state_vel := entry i v\<rparr>"
    by (simp add: a'_u f_i) (simp add: a'_eq)
  ultimately show ?thesis by simp
qed

lemma ticks_entry:
  assumes "\<forall>(des_vel, cur_vel) \<in> set inputs. i < length des_vel"
  shows "ticks c a inputs = Inr (outs, c') \<Longrightarrow>
         mass b = mass a \<and> max_f b = max_f a \<and> f_range b = f_range a \<Longrightarrow>
         ticks (ctrl_entry i c) b (inputs_entry i inputs) = Inr (map (entry i) outs, ctrl_entry i c')"
  using assms
proof (induction inputs arbitrary: c a b outs)
  case Nil
  then show ?case by (simp add: inputs_entry_def)
next
  case (Cons p inputs)
  obtain u v where p: "p = (u, v)" by (cases p)
  from Cons.prems(1) p obtain c1 a1 outs1 where
    pf: "process_force c (a\<lparr>action_u := u, state_vel := v\<rparr>) = Inr (c1, a1)"
    and rest: "ticks c1 a1 inputs = Inr (outs1, c')"
    and outs: "outs = action_u a1 # outs1"
    by (auto simp add: bind_eq_Inr)
  have i: "i < length u" using Cons.prems(3) p by simp
  have all: "\<forall>(des_vel, cur_vel) \<in> set inputs. i < length des_vel" using Cons.prems(3) by simp
  have ab: "b\<lparr>action_u := entry i u, state_vel := entry i v\<rparr>
      = a\<lparr>action_u := entry i u, state_vel := entry i v\<rparr>"
    using Cons.prems(2) by (cases a, cases b) simp
  let ?b1 = "a1\<lparr>action_u := entry i (action_u a1), state_vel := entry i v\<rparr>"
  have pf_i: "process_force (ctrl_entry i c) (b\<lparr>action_u := entry i u, state_vel := entry i v\<rparr>)
      = Inr (ctrl_entry i c1, ?b1)"
    unfolding ab using pf i by (rule process_force_entry)
  have "mass ?b1 = mass a1 \<and> max_f ?b1 = max_f a1 \<and> f_range ?b1 = f_range a1" by simp
  then have "ticks (ctrl_entry i c1) ?b1 (inputs_entry i inputs)
      = Inr (map (entry i) outs1, ctrl_entry i c')"
    using Cons.IH [OF rest _ all] by blast
  then show ?case
    using pf_i by (simp add: p outs inputs_entry_def)
qed

lemma ctrl_entry_fresh:
  "accum_errs c = Scalar 0 \<Longrightarrow> prev_err c = Scalar 0 \<Longrightarrow> ctrl_entry i c = c"
  by (simp add: ctrl_entry_def)

text \<open>
  Claim C10. When a batched run of ticks returns, running entry \<open>i\<close> of the inputs alone
  through the controller holding entry \<open>i\<close> of the state returns entry \<open>i\<close> of every output
  force and entry \<open>i\<close> of the final state; for a controller whose memories are the initial
  zeros that single-entry controller is the same controller. Hence two batched runs whose
  inputs agree on entry \<open>i\<close> agree on entry \<open>i\<close> of every output and of the final state,
  whatever the other entries hold.
\<close>

theorem batch_independence:
  assumes "ticks c a inputs = Inr (outs, c')"
    and "\<forall>(des_vel, cur_vel) \<in> set inputs. i < length des_vel"
  shows "ticks (ctrl_entry i c) a (inputs_entry i inputs) = Inr (map (entry i) outs, ctrl_entry i c')
       \<and> (accum_errs c = Scalar 0 \<and> prev_err c = Scalar 0 \<longrightarrow>
            ticks c a (inputs_entry i inputs) = Inr (map (entry i) outs, ctrl_entry i c'))
       \<and> (\<forall>inputs2 outs2 c2.
            ticks c a inputs2 = Inr (outs2, c2)
            \<and> (\<forall>(des_vel, cur_vel) \<in> set inputs2. i < length des_vel)
            \<and> inputs_entry i inputs2 = inputs_entry i inputs
            \<longrightarrow> map (entry i) outs2 = map (entry i) outs \<and> ctrl_entry i c2 = ctrl_entry i c')"
proof -
  have 1: "ticks (ctrl_entry i c) a (inputs_entry i inputs) = Inr (map (entry i) outs, ctrl_entry i c')"
    using ticks_entry [OF assms(2) assms(1), of a] by simp
  have 2: "ticks c a (inputs_entry i inputs) = Inr (map (entry i) outs, ctrl_entry i c')"
    if "accum_errs c = Scalar 0 \<and> prev_err c = Scalar 0"
    using 1 that by (simp add: ctrl_entry_fresh)
  have 3: "map (entry i) outs2 = map (entry i) outs \<and> ctrl_entry i c2 = ctrl_entry i c'"
    if h: "ticks c a inputs2 = Inr (outs2, c2)
            \<and> (\<forall>(des_vel, cur_vel) \<in> set inputs2. i < length des_vel)
            \<and> inputs_entry i inputs2 = inputs_entry i inputs" for inputs2 outs2 c2
  proof -
    from h have t: "ticks c a inputs2 = Inr (outs2, c2)"
      and l: "\<forall>(des_vel, cur_vel) \<in> set inputs2. i < length des_vel"
      and e: "inputs_entry i inputs2 = inputs_entry i inputs"
      by blast+
    have "ticks (ctrl_entry i c) a (inputs_entry i inputs2)
        = Inr (map (entry i) outs2, ctrl_entry i c2)"
      using ticks_entry [OF l t, of a] by simp
    with 1 e show ?thesis by simp
  qed
  from 1 2 3 show ?thesis by blast
qed

lemma ticks_batch_example:
  "ticks ex_ctrl ex_agent [([[1], [2]], [[0], [0]]), ([[1], [5]], [[0.5], [1]])] =
     Inr ([[[1.02], [2.04]], [[0.53], [4.12]]],
          ex_ctrl\<lparr>accum_errs := Tensor [[0.15], [0.6]], prev_err := Tensor [[0.5], [4]]\<rparr>)"
  by (simp add: ex_ctrl_def ex_agent_def eval_defs)

theorem batch_independence_witness:
  "ticks ex_ctrl ex_agent [([[1], [2]], [[0], [0]]), ([[1], [5]], [[0.5], [1]])] =
     Inr ([[[1.02], [2.04]], [[0.53], [4.12]]],
          ex_ctrl\<lparr>accum_errs := Tensor [[0.15], [0.6]], prev_err := Tensor [[0.5], [4]]\<rparr>)
   \<and> ticks ex_ctrl ex_agent [([[2]], [[0]]), ([[5]], [[1]])] =
     Inr ([[[2.04]], [[4.12]]],
          ex_ctrl\<lparr>accum_errs := Tensor [[0.6]], prev_err := Tensor [[4]]\<rparr>)"
proof -
  have l: "\<forall>(des_vel, cur_vel) \<in> set [([[1], [2]], [[0], [0]]), ([[1], [5 :: real]], [[0.5], [1 :: real]])].
      1 < length des_vel"
    by simp
  have z: "accum_errs ex_ctrl = Scalar 0 \<and> prev_err ex_ctrl = Scalar 0" by (simp add: ex_ctrl_def)
  from batch_independence [OF ticks_batch_example l] z
  have "ticks ex_ctrl ex_agent (inputs_entry 1 [([[1], [2]], [[0], [0]]), ([[1], [5]], [[0.5], [1]])])
      = Inr (map (entry 1) [[[1.02], [2.04]], [[0.53], [4.12]]],
          ctrl_entry 1 (ex_ctrl\<lparr>accum_errs := Tensor [[0.15], [0.6]], prev_err := Tensor [[0.5], [4]]\<rparr>))"
    by blast
  then have "ticks ex_ctrl ex_agent [([[2]], [[0]]), ([[5]], [[1]])] =
     Inr ([[[2.04]], [[4.12]]],
          ex_ctrl\<lparr>accum_errs := Tensor [[0.6]], prev_err := Tensor [[4]]\<rparr>)"
    by (simp add: inputs_entry_def entry_def ctrl_entry_def)
  with ticks_batch_example show ?thesis by blast
qed

end
